theory Spec2Isabelle
  imports
    Main
    "HOL-Library.Sublist"
    "HOL-Library.Multiset"
    "HOL-Library.Char_ord"
    "HOL-Library.List_Lexorder"
    "HOL-Library.Product_Lexorder"
begin

section \<open>Python strings and paths\<close>

text \<open>
  Strings are byte strings. \<open>str.lower\<close> is modelled on ASCII: the twenty-six capital
  letters are mapped to their small forms and every other byte is left as it is.
\<close>

definition lower_char :: "char \<Rightarrow> char" where
  "lower_char c =
     (case map_of (zip ''ABCDEFGHIJKLMNOPQRSTUVWXYZ'' ''abcdefghijklmnopqrstuvwxyz'') c of
        Some d \<Rightarrow> d
      | None \<Rightarrow> c)"

definition lower :: "string \<Rightarrow> string" where
  "lower s = map lower_char s"

text \<open>\<open>s.startswith(p)\<close>, \<open>k in s\<close> and \<open>any(k in s for k in ks)\<close>.\<close>

definition startswith :: "string \<Rightarrow> string \<Rightarrow> bool" where
  "startswith s p = prefix p s"

definition py_in :: "string \<Rightarrow> string \<Rightarrow> bool" where
  "py_in k s = sublist k s"

definition any_in :: "string list \<Rightarrow> string \<Rightarrow> bool" where
  "any_in ks s = list_ex (\<lambda>k. py_in k s) ks"

text \<open>\<open>s.replace("\\", "/")\<close>.\<close>

definition replace_backslash :: "string \<Rightarrow> string" where
  "replace_backslash s = map (\<lambda>c. if c = CHR 0x5C then CHR ''/'' else c) s"

text \<open>
  \<open>PurePath.name\<close>, \<open>PurePath.suffix\<close> and \<open>PurePath.stem\<close> on a slash-separated
  path: the name is the text after the last slash; with \<open>i = name.rfind('.')\<close> the suffix
  is \<open>name[i:]\<close> when \<open>0 < i < len(name) - 1\<close> and empty otherwise, and the stem is the
  rest of the name.
\<close>

definition path_name :: "string \<Rightarrow> string" where
  "path_name p = rev (takeWhile (\<lambda>c. c \<noteq> CHR ''/'') (rev p))"

definition after_last_dot :: "string \<Rightarrow> string" where
  "after_last_dot n = rev (takeWhile (\<lambda>c. c \<noteq> CHR ''.'') (rev n))"

definition has_suffix :: "string \<Rightarrow> bool" where
  "has_suffix n \<longleftrightarrow>
     CHR ''.'' \<in> set n \<and> after_last_dot n \<noteq> [] \<and> length (after_last_dot n) + 1 < length n"

definition path_suffix :: "string \<Rightarrow> string" where
  "path_suffix p =
     (let n = path_name p in if has_suffix n then CHR ''.'' # after_last_dot n else [])"

definition path_stem :: "string \<Rightarrow> string" where
  "path_stem p =
     (let n = path_name p
      in if has_suffix n then take (length n - length (after_last_dot n) - 1) n else n)"

text \<open>\<open>PurePath.parent\<close>: the text before the last slash, the root (empty) when there is none.\<close>

definition path_parent :: "string \<Rightarrow> string" where
  "path_parent p = take (length p - length (path_name p) - 1) p"


section \<open>repo_reorg.py: configuration\<close>

definition NOT_NEEDED_EXTENSIONS :: "string list" where
  "NOT_NEEDED_EXTENSIONS = [''.zip'', ''.7z'', ''.rar'', ''.bak'', ''.tmp'', ''.log'']"

definition KEEP_EXTENSIONS :: "string list" where
  "KEEP_EXTENSIONS =
     [''.html'', ''.css'', ''.js'', ''.json'', ''.md'', ''.txt'',
      ''.png'', ''.jpg'', ''.jpeg'', ''.webp'', ''.gif'', ''.svg'',
      ''.py'', ''.ts'', ''.tsx'', ''.jsx'', ''.yaml'', ''.yml'',
      ''.csv'']"

definition SKIP_DIRS :: "string list" where
  "SKIP_DIRS = [''.git'', ''.svn'', ''.hg'', ''__pycache__'', ''node_modules'', ''.venv'']"

definition BUILD_PLAN_HINTS :: "string list" where
  "BUILD_PLAN_HINTS =
     [''Build_plan'', ''MASTER_BUILD_PLAN'', ''MICROSTEP'', ''microsteps'', ''module'',
      ''m0'', ''m1'', ''m2'', ''m3'', ''m4'', ''m5'', ''m6'', ''m7'', ''m8'']"

definition CANONICAL_ROOT_FILES :: "string list" where
  "CANONICAL_ROOT_FILES =
     [''MASTER_BUILD_PLAN_CONSOLIDATED.html'',
      ''MASTER_BUILD_PLAN_CONSOLIDATED_V2.html'',
      lower ''MASTER_BUILD_PLAN_CONSOLIDATED.html'',
      ''index.html'']"

definition REPO_LAYOUT_keys :: "string list" where
  "REPO_LAYOUT_keys =
     [''Build_plan'', ''docs'', ''spec'', ''src'', ''fixtures'', ''golden'', ''tools'',
      ''reports'', ''archive'']"

definition ARCHIVE_SUBFOLDERS :: "string list" where
  "ARCHIVE_SUBFOLDERS = [''archive/_duplicates'', ''archive/_not_needed'', ''archive/_unknown_review'']"


section \<open>repo_reorg.py: the file record\<close>

text \<open>
  Every path of the model is written from the root given on the command line, with \<open>/\<close>
  between its parts, so \<open>root / p\<close> is \<open>p\<close>, \<open>abs_path\<close> is the path as the walk
  yields it and \<open>rel_path\<close> is that path after \<open>normalize_rel\<close>. The modification
  time is kept as the number \<open>st_mtime\<close>; the source formats it for the report and
  compares the numbers.
\<close>

record FileRecord =
  rel_path :: string
  abs_path :: string
  size :: nat
  mtime :: int
  sha256 :: "string option"
  action :: string
  reason :: string
  dest_rel_path :: "string option"

definition normalize_rel :: "string \<Rightarrow> string" where
  "normalize_rel p = replace_backslash p"


section \<open>repo_reorg.py: destination classifier and not-needed filter\<close>

definition choose_destination :: "string \<Rightarrow> string \<Rightarrow> string \<times> string" where
  "choose_destination rel name =
     (let rel_l = lower rel;
          name_l = lower name;
          ext = lower (path_suffix name)
      in
      if name \<in> set CANONICAL_ROOT_FILES \<or> name_l \<in> set CANONICAL_ROOT_FILES then
        (''Build_plan/'' @ name, ''Canonical plan entrypoint'')
      else if startswith rel_l ''build_plan/'' then
        (replace_backslash rel, ''Already in Build_plan'')
      else if ext = ''.html'' \<and> list_ex (\<lambda>h. py_in (lower h) rel_l) (map lower BUILD_PLAN_HINTS) then
        (''Build_plan/'' @ path_name name, ''HTML appears to be build-plan related'')
      else if ext = ''.md'' then
        (if any_in [''contract'', ''schema'', ''spec''] rel_l
         then (''spec/'' @ path_name name, ''Spec-like markdown'')
         else (''docs/'' @ path_name name, ''General markdown documentation''))
      else if ext \<in> set [''.json'', ''.yaml'', ''.yml'']
              \<and> any_in [''schema'', ''contract'', ''spec''] rel_l then
        (''spec/'' @ path_name name, ''Schema/contract file'')
      else if ext \<in> set [''.py'', ''.js'', ''.ts'', ''.tsx'', ''.jsx''] then
        (if any_in [''tool'', ''script'', ''build'', ''validate'', ''export''] rel_l
         then (''tools/'' @ path_name name, ''Tooling script'')
         else (''src/'' @ path_name name, ''Source code''))
      else if ext \<in> set [''.png'', ''.jpg'', ''.jpeg'', ''.webp'', ''.gif'', ''.svg''] then
        (if any_in [''build_plan'', ''micro'', ''reader'', ''module'',
                    ''m0'', ''m1'', ''m2'', ''m3'', ''m4'', ''m5'', ''m6'', ''m7'', ''m8''] rel_l
         then (''Build_plan/assets/'' @ path_name name, ''Build-plan asset image'')
         else (''docs/assets/'' @ path_name name, ''Documentation asset image''))
      else if any_in [''fixture'', ''toybook'', ''book1window''] rel_l then
        (''fixtures/'' @ path_name name, ''Fixture file'')
      else if any_in [''golden'', ''snapshot'', ''expected_output''] rel_l then
        (''golden/'' @ path_name name, ''Golden output'')
      else if ext \<in> set KEEP_EXTENSIONS then
        (''docs/misc/'' @ path_name name, ''Misc keep-extension file'')
      else
        (''archive/_unknown_review/'' @ path_name name, ''Unknown file type; review''))"

definition classify_not_needed :: "string \<Rightarrow> string \<Rightarrow> string option" where
  "classify_not_needed path rel =
     (let ext = lower (path_suffix path);
          rel_l = lower rel
      in
      if ext \<in> set NOT_NEEDED_EXTENSIONS then
        Some (''Packaged artifact ('' @ ext @ '')'')
      else if any_in [''old'', ''backup'', ''export'', ''exports'', ''tmp'', ''temp''] rel_l
              \<and> \<not> py_in ''build_plan'' rel_l then
        Some ''Looks like export/backup/temp''
      else None)"


section \<open>repo_reorg.py: the move planner\<close>

text \<open>
  One turn of the loop of \<open>main\<close> that decides the actions: the record as the loop leaves
  it and the moves it appends to \<open>actions\<close>. \<open>hash_flag\<close> is \<open>args.hash\<close>; a reason
  counts when it is a non-empty string, as Python's truth test has it.
\<close>

definition plan_record ::
  "bool \<Rightarrow> string set \<Rightarrow> FileRecord \<Rightarrow> FileRecord \<times> (string \<times> string) list" where
  "plan_record hash_flag dup_paths rec =
     (let src = abs_path rec;
          rel = rel_path rec;
          name = path_name src;
          rel_l = lower rel
      in
      if hash_flag \<and> src \<in> dup_paths then
        (let dest_rel = ''archive/_duplicates/'' @ name
         in (rec\<lparr>action := ''MOVE_TO_ARCHIVE_DUPLICATE'',
                  reason := ''Duplicate content (sha256 match)'',
                  dest_rel_path := Some dest_rel\<rparr>,
             [(src, dest_rel)]))
      else
        (let not_needed_reason = classify_not_needed src rel
         in
         if not_needed_reason \<noteq> None \<and> the not_needed_reason \<noteq> []
            \<and> \<not> startswith rel_l ''archive/'' then
           (let dest_rel = ''archive/_not_needed/'' @ name
            in (rec\<lparr>action := ''MOVE_TO_ARCHIVE_NOT_NEEDED'',
                     reason := the not_needed_reason,
                     dest_rel_path := Some dest_rel\<rparr>,
                [(src, dest_rel)]))
         else
           (let dest_rel = fst (choose_destination rel name);
                reason' = snd (choose_destination rel name)
            in
            if normalize_rel src = dest_rel then
              (rec\<lparr>action := ''KEEP_IN_PLACE'', reason := reason',
                    dest_rel_path := Some dest_rel\<rparr>, [])
            else
              (rec\<lparr>action := (if startswith dest_rel ''archive/_unknown_review/''
                                then ''MOVE_TO_ARCHIVE_UNKNOWN'' else ''MOVE_TO_DEST''),
                    reason := reason',
                    dest_rel_path := Some dest_rel\<rparr>,
               [(src, dest_rel)]))))"

fun decide_actions ::
  "bool \<Rightarrow> string set \<Rightarrow> FileRecord list \<Rightarrow> FileRecord list \<times> (string \<times> string) list" where
  "decide_actions hash_flag dup_paths [] = ([], [])"
| "decide_actions hash_flag dup_paths (rec # recs) =
     (let (rec', acts) = plan_record hash_flag dup_paths rec;
          (recs', acts') = decide_actions hash_flag dup_paths recs
      in (rec' # recs', acts @ acts'))"


section \<open>repo_reorg.py: the tree, the scan and the duplicate pass\<close>

text \<open>
  A snapshot of the tree under the root: its files in the order \<open>rglob\<close> yields them, each
  with what \<open>stat\<close> and \<open>sha256_file\<close> give for it, and its directories. A file whose
  \<open>stat\<close> raises has \<open>stat_fails\<close>; a file that cannot be read has the text of the
  exception in \<open>read_error\<close>. Directories are passed over by the walk and are not iterated.
\<close>

record file_node =
  digest :: string
  st_size :: nat
  st_mtime :: int
  stat_fails :: bool
  read_error :: "string option"

record tree =
  files :: "(string \<times> file_node) list"
  dirs :: "string list"

datatype error = OSError string | ValueError string | IndexError | SystemExit string

fun split_on :: "char \<Rightarrow> string \<Rightarrow> string list" where
  "split_on c [] = [[]]"
| "split_on c (x # xs) =
     (if x = c then [] # split_on c xs
      else (case split_on c xs of [] \<Rightarrow> [[x]] | y # ys \<Rightarrow> (x # y) # ys))"

definition path_parts :: "string \<Rightarrow> string list" where
  "path_parts p = filter (\<lambda>c. c \<noteq> []) (split_on (CHR ''/'') p)"

definition is_in_skip_dir :: "string \<Rightarrow> bool" where
  "is_in_skip_dir path = list_ex (\<lambda>part. part \<in> set SKIP_DIRS) (path_parts path)"

definition new_record :: "string \<Rightarrow> string \<Rightarrow> nat \<Rightarrow> int \<Rightarrow> FileRecord" where
  "new_record rel p sz mt =
     \<lparr>rel_path = rel, abs_path = p, size = sz, mtime = mt, sha256 = None,
      action = ''KEEP_IN_PLACE'', reason = [], dest_rel_path = None\<rparr>"

text \<open>\<open>d.setdefault(k, []).append(v)\<close> on a dictionary kept as an association list.\<close>

fun setdefault_append :: "'k \<Rightarrow> 'v \<Rightarrow> ('k \<times> 'v list) list \<Rightarrow> ('k \<times> 'v list) list" where
  "setdefault_append k v [] = [(k, [v])]"
| "setdefault_append k v ((k', vs) # m) =
     (if k' = k then (k', vs @ [v]) # m else (k', vs) # setdefault_append k v m)"

text \<open>
  The scanning loop of \<open>main\<close>. \<open>p.stat()\<close> stands outside every \<open>try\<close>, so a file whose
  \<open>stat\<close> raises ends the run; a failure of \<open>sha256_file\<close> is caught and noted.
\<close>

fun scan_loop ::
  "bool \<Rightarrow> (string \<times> file_node) list \<Rightarrow> FileRecord list \<Rightarrow> (string \<times> string list) list
    \<Rightarrow> error + (FileRecord list \<times> (string \<times> string list) list)" where
  "scan_loop hash_flag [] records hash_map = Inr (records, hash_map)"
| "scan_loop hash_flag ((p, f) # rest) records hash_map =
     (let rel = normalize_rel p
      in
      if is_in_skip_dir rel then scan_loop hash_flag rest records hash_map
      else if stat_fails f then Inl (OSError p)
      else
        (let rec = new_record rel p (st_size f) (st_mtime f)
         in
         if hash_flag then
           (case read_error f of
              None \<Rightarrow>
                scan_loop hash_flag rest (records @ [rec\<lparr>sha256 := Some (digest f)\<rparr>])
                  (setdefault_append (digest f) p hash_map)
            | Some e \<Rightarrow>
                scan_loop hash_flag rest (records @ [rec\<lparr>reason := ''Hash failed: '' @ e\<rparr>])
                  hash_map)
         else scan_loop hash_flag rest (records @ [rec]) hash_map))"

definition scan :: "bool \<Rightarrow> tree \<Rightarrow> error + (FileRecord list \<times> (string \<times> string list) list)" where
  "scan hash_flag t = scan_loop hash_flag (files t) [] []"

text \<open>
  \<open>sorted(xs, key=key, reverse=True)\<close>: the list is reversed, sorted by a stable sort and
  reversed again, so the keys descend and equal keys keep the order they came in.
\<close>

definition py_sorted_reverse :: "('a \<Rightarrow> 'k::linorder) \<Rightarrow> 'a list \<Rightarrow> 'a list" where
  "py_sorted_reverse key xs = rev (sort_key key (rev xs))"

text \<open>
  \<open>x.stat().st_mtime\<close> in the duplicate pass reads the same snapshot as the scan, which has
  read the \<open>stat\<close> of every path of \<open>hash_map\<close> already.
\<close>

definition path_mtime :: "tree \<Rightarrow> string \<Rightarrow> int" where
  "path_mtime t p = (case map_of (files t) p of Some f \<Rightarrow> st_mtime f | None \<Rightarrow> 0)"

definition find_dup_paths :: "(string \<Rightarrow> int) \<Rightarrow> (string \<times> string list) list \<Rightarrow> string list" where
  "find_dup_paths mt hash_map =
     concat (map (\<lambda>(sha, paths).
                    if length paths > 1 then tl (py_sorted_reverse mt paths) else [])
                 hash_map)"


section \<open>repo_reorg.py: executing the moves\<close>

definition path_exists :: "tree \<Rightarrow> string \<Rightarrow> bool" where
  "path_exists t p \<longleftrightarrow> p = [] \<or> p \<in> set (map fst (files t)) \<or> p \<in> set (dirs t)"

text \<open>A path and the directories above it, the root left out.\<close>

definition path_prefixes :: "string \<Rightarrow> string list" where
  "path_prefixes p =
     map (\<lambda>i. take i p)
       (filter (\<lambda>i. i = length p \<or> p ! i = CHR ''/'') [1 ..< Suc (length p)])"

text \<open>
  \<open>p.mkdir(parents=True, exist_ok=True)\<close>: it raises when \<open>p\<close> or a directory above it is a
  file, and then has made nothing.
\<close>

definition safe_mkdir :: "tree \<Rightarrow> string \<Rightarrow> error + tree" where
  "safe_mkdir t p =
     (if list_ex (\<lambda>q. q \<in> set (map fst (files t))) (path_prefixes p) then Inl (OSError p)
      else Inr (t\<lparr>dirs := dirs t @ filter (\<lambda>q. q \<notin> set (dirs t)) (path_prefixes p)\<rparr>))"

definition path_join :: "string \<Rightarrow> string \<Rightarrow> string" where
  "path_join parent n = (if parent = [] then n else parent @ ''/'' @ n)"

text \<open>\<open>str(i)\<close> for a natural number.\<close>

definition digit_char :: "nat \<Rightarrow> char" where
  "digit_char d = ''0123456789'' ! d"

fun str_nat :: "nat \<Rightarrow> string" where
  "str_nat n = (if n < 10 then [digit_char n] else str_nat (n div 10) @ [digit_char (n mod 10)])"

declare str_nat.simps [simp del]

definition candidate :: "string \<Rightarrow> string \<Rightarrow> string \<Rightarrow> nat \<Rightarrow> string" where
  "candidate parent stem sfx i = path_join parent (stem @ ''__'' @ str_nat i @ sfx)"

text \<open>
  \<open>shutil.move(src, dest)\<close> of one file: the file is renamed, and a file that was at
  \<open>dest\<close> is replaced. The sources of the planned moves are paths of records, and a record
  is made for a file only.
\<close>

definition shutil_move :: "tree \<Rightarrow> string \<Rightarrow> string \<Rightarrow> tree" where
  "shutil_move t src dest =
     t\<lparr>files := map (\<lambda>(p, f). (if p = src then dest else p, f))
                  (filter (\<lambda>(p, f). p = src \<or> p \<noteq> dest) (files t))\<rparr>"

text \<open>
  The loop of \<open>move_file\<close> that looks for a free name, \<open>i\<close> counting up from 2. It ends
  because the tree holds finitely many paths and the candidates differ from one another.
\<close>

function find_candidate :: "tree \<Rightarrow> string \<Rightarrow> string \<Rightarrow> string \<Rightarrow> nat \<Rightarrow> string" where
  "find_candidate t parent stem sfx i =
     (if \<not> path_exists t (candidate parent stem sfx i) then candidate parent stem sfx i
      else find_candidate t parent stem sfx (i + 1))"
  by pat_completeness auto
termination
proof -
  have len: "0 < length (str_nat n)" for n
    by (induction n rule: str_nat.induct) (subst str_nat.simps, simp)
  have dig: "digit_char a = digit_char b \<Longrightarrow> a = b" if "a < 10" "b < 10" for a b
  proof -
    have "distinct ''0123456789''" by simp
    moreover have "a < length ''0123456789''" "b < length ''0123456789''" using that by simp_all
    ultimately show "digit_char a = digit_char b \<Longrightarrow> a = b"
      unfolding digit_char_def by (simp only: nth_eq_iff_index_eq)
  qed
  have inj: "str_nat n = str_nat m \<Longrightarrow> n = m" for n m
  proof (induction n arbitrary: m rule: str_nat.induct)
    case (1 n)
    show ?case
    proof (cases "n < 10")
      case True
      then have sn: "str_nat n = [digit_char n]" by (subst str_nat.simps) simp
      show ?thesis
      proof (cases "m < 10")
        case mt: True
        then have "str_nat m = [digit_char m]" by (subst str_nat.simps) simp
        with sn "1.prems" have "digit_char n = digit_char m" by simp
        then show ?thesis using dig True mt by blast
      next
        case False
        then have "str_nat m = str_nat (m div 10) @ [digit_char (m mod 10)]"
          by (subst str_nat.simps) simp
        with sn "1.prems" have "str_nat (m div 10) = []" by simp
        with len[of "m div 10"] show ?thesis by simp
      qed
    next
      case False
      then have sn: "str_nat n = str_nat (n div 10) @ [digit_char (n mod 10)]"
        by (subst str_nat.simps) simp
      show ?thesis
      proof (cases "m < 10")
        case True
        then have "str_nat m = [digit_char m]" by (subst str_nat.simps) simp
        with sn "1.prems" have "str_nat (n div 10) = []" by simp
        with len[of "n div 10"] show ?thesis by simp
      next
        case mf: False
        then have "str_nat m = str_nat (m div 10) @ [digit_char (m mod 10)]"
          by (subst str_nat.simps) simp
        with sn "1.prems" have a: "str_nat (n div 10) = str_nat (m div 10)"
          and b: "digit_char (n mod 10) = digit_char (m mod 10)" by simp_all
        from "1.IH"[OF False a] have "n div 10 = m div 10" .
        moreover from b have "n mod 10 = m mod 10" using dig[of "n mod 10" "m mod 10"] by simp
        ultimately show ?thesis by (metis div_mult_mod_eq)
      qed
    qed
  qed
  have cinj: "candidate parent stem sfx i = candidate parent stem sfx j \<Longrightarrow> i = j"
    for parent stem sfx i j
    unfolding candidate_def path_join_def using inj by (auto split: if_splits)
  let ?S = "\<lambda>t parent stem sfx (i::nat).
    {p \<in> set (map fst (files t)) \<union> set (dirs t). \<exists>j\<ge>i. p = candidate parent stem sfx j}"
  show ?thesis
  proof (relation "measure (\<lambda>(t, parent, stem, sfx, i).
      card {p \<in> set (map fst (files t)) \<union> set (dirs t). \<exists>j\<ge>i. p = candidate parent stem sfx j})")
    show "wf (measure (\<lambda>(t, parent, stem, sfx, i).
      card {p \<in> set (map fst (files t)) \<union> set (dirs t). \<exists>j\<ge>i. p = candidate parent stem sfx j}))"
      by simp
  next
    fix t parent stem sfx and i :: nat
    assume ex: "\<not> \<not> path_exists t (candidate parent stem sfx i)"
    have ne: "candidate parent stem sfx i \<noteq> []"
      unfolding candidate_def path_join_def by auto
    from ex ne have mem: "candidate parent stem sfx i \<in> ?S t parent stem sfx i"
      unfolding path_exists_def by auto
    have nmem: "candidate parent stem sfx i \<notin> ?S t parent stem sfx (i + 1)"
      using cinj[of parent stem sfx i] by auto
    have sub: "?S t parent stem sfx (i + 1) \<subseteq> ?S t parent stem sfx i"
    proof
      fix p assume "p \<in> ?S t parent stem sfx (i + 1)"
      then obtain j where "p \<in> set (map fst (files t)) \<union> set (dirs t)" "j \<ge> i + 1"
        "p = candidate parent stem sfx j" by blast
      moreover then have "j \<ge> i" by simp
      ultimately show "p \<in> ?S t parent stem sfx i" by blast
    qed
    have fin: "finite (?S t parent stem sfx i)" by simp
    have "?S t parent stem sfx (i + 1) \<subset> ?S t parent stem sfx i"
      using mem nmem sub by blast
    then have "card (?S t parent stem sfx (i + 1)) < card (?S t parent stem sfx i)"
      using fin by (rule psubset_card_mono[rotated])
    then show "((t, parent, stem, sfx, i + 1), (t, parent, stem, sfx, i))
      \<in> measure (\<lambda>(t, parent, stem, sfx, i).
      card {p \<in> set (map fst (files t)) \<union> set (dirs t). \<exists>j\<ge>i. p = candidate parent stem sfx j})"
      by simp
  qed
qed

definition move_file :: "tree \<Rightarrow> string \<Rightarrow> string \<Rightarrow> error + tree" where
  "move_file t src dest =
     (case safe_mkdir t (path_parent dest) of
        Inl e \<Rightarrow> Inl e
      | Inr t1 \<Rightarrow>
          (let dest' = (if path_exists t1 dest
                        then find_candidate t1 (path_parent dest) (path_stem dest) (path_suffix dest) 2
                        else dest)
           in Inr (shutil_move t1 src dest')))"

text \<open>
  The loop that executes the moves. The tree is returned as the loop leaves it, with the
  error that ended it when one did.
\<close>

fun execute_moves :: "string \<Rightarrow> tree \<Rightarrow> (string \<times> string) list \<Rightarrow> tree \<times> error option" where
  "execute_moves report_dir t [] = (t, None)"
| "execute_moves report_dir t ((src, dst) # actions) =
     (if \<not> path_exists t src then execute_moves report_dir t actions
      else if report_dir \<in> set (butlast (path_prefixes src)) then execute_moves report_dir t actions
      else (case move_file t src dst of
              Inl e \<Rightarrow> (t, Some e)
            | Inr t' \<Rightarrow> execute_moves report_dir t' actions))"

fun mkdir_all :: "tree \<Rightarrow> string list \<Rightarrow> error + tree" where
  "mkdir_all t [] = Inr t"
| "mkdir_all t (d # ds) = (case safe_mkdir t d of Inl e \<Rightarrow> Inl e | Inr t' \<Rightarrow> mkdir_all t' ds)"

text \<open>
  The block of \<open>main\<close> under \<open>if args.apply\<close>, up to \<open>Moves complete\<close>. \<open>stamp\<close> is what
  \<open>now_stamp\<close> returned. What a failed \<open>mkdir\<close> of the layout has already made is left out
  of the returned tree; it is directories only.
\<close>

definition apply_changes :: "string \<Rightarrow> tree \<Rightarrow> (string \<times> string) list \<Rightarrow> tree \<times> error option" where
  "apply_changes stamp t actions =
     (let planned_dirs = REPO_LAYOUT_keys @ ARCHIVE_SUBFOLDERS;
          report_dir = ''reports/reorg/'' @ stamp
      in
      case mkdir_all t (planned_dirs @ [report_dir]) of
        Inl e \<Rightarrow> (t, Some e)
      | Inr t1 \<Rightarrow> execute_moves report_dir t1 actions)"

text \<open>
  \<open>main\<close> from the scan to the end of the moves: the tree after the run, the records and the
  planned moves, and the error that ended the run when one did. The reports written after
  the moves are outside the model.
\<close>

definition reorg_main ::
  "bool \<Rightarrow> bool \<Rightarrow> string \<Rightarrow> tree
    \<Rightarrow> tree \<times> FileRecord list \<times> (string \<times> string) list \<times> error option" where
  "reorg_main hash_flag apply_flag stamp t =
     (case scan hash_flag t of
        Inl e \<Rightarrow> (t, [], [], Some e)
      | Inr (records, hash_map) \<Rightarrow>
          (let dup_paths = (if hash_flag then set (find_dup_paths (path_mtime t) hash_map) else {});
               planned = decide_actions hash_flag dup_paths records
           in
           if apply_flag then
             (let r = apply_changes stamp t (snd planned) in (fst r, fst planned, snd planned, snd r))
           else (t, fst planned, snd planned, None)))"


section \<open>polish_links.py: values of attributes\<close>

text \<open>
  \<open>str.strip\<close> removes the ASCII white space of Python (bytes 9 to 13, 28 to 32) at both
  ends.
\<close>

definition is_space :: "char \<Rightarrow> bool" where
  "is_space c \<longleftrightarrow> (CHR 0x09 \<le> c \<and> c \<le> CHR 0x0D) \<or> (CHR 0x1C \<le> c \<and> c \<le> CHR 0x20)"

definition strip :: "string \<Rightarrow> string" where
  "strip s = rev (dropWhile is_space (rev (dropWhile is_space s)))"

definition is_ascii_alpha :: "char \<Rightarrow> bool" where
  "is_ascii_alpha c \<longleftrightarrow> (CHR ''A'' \<le> c \<and> c \<le> CHR ''Z'') \<or> (CHR ''a'' \<le> c \<and> c \<le> CHR ''z'')"

definition is_digit :: "char \<Rightarrow> bool" where
  "is_digit c \<longleftrightarrow> CHR ''0'' \<le> c \<and> c \<le> CHR ''9''"

definition SKIP_PREFIXES :: "string list" where
  "SKIP_PREFIXES = [''http://'', ''https://'', ''mailto:'', ''tel:'', ''#'', ''javascript:'']"

definition is_external :: "string \<Rightarrow> bool" where
  "is_external v = (let v = strip v in list_ex (\<lambda>p. startswith (lower v) p) SKIP_PREFIXES)"

text \<open>\<open>re.match(r"^[A-Za-z]:[\\/]", val)\<close>.\<close>

definition is_disk_path :: "string \<Rightarrow> bool" where
  "is_disk_path val =
     (case val of
        a # b # c # rest \<Rightarrow> is_ascii_alpha a \<and> b = CHR '':'' \<and> (c = CHR 0x5C \<or> c = CHR ''/'')
      | _ \<Rightarrow> False)"

text \<open>
  \<open>urllib.parse.urlparse\<close> on ASCII text, after \<open>urlsplit\<close>: leading control characters
  and spaces are dropped, tabs and line ends are removed, then the scheme, the network
  location after \<open>//\<close>, the fragment, the query and the parameters of the last segment are
  split off in this order. A network location with one square bracket and not the other
  raises \<open>ValueError\<close>; the check of a bracketed host as an address is left out.
\<close>

record url_parts =
  u_scheme :: string
  u_netloc :: string
  u_path :: string
  u_params :: string
  u_query :: string
  u_fragment :: string

definition scheme_char :: "char \<Rightarrow> bool" where
  "scheme_char c \<longleftrightarrow> is_ascii_alpha c \<or> is_digit c \<or> c \<in> set ''+-.''"

definition uses_params :: "string list" where
  "uses_params = [[], ''ftp'', ''hdl'', ''prospero'', ''http'', ''imap'', ''https'', ''shttp'',
     ''rtsp'', ''rtspu'', ''sip'', ''sips'', ''mms'', ''sftp'', ''tel'']"

text \<open>\<open>s.split(c, 1)\<close> for a \<open>c\<close> that occurs in \<open>s\<close>: the text before and after the first \<open>c\<close>.\<close>

definition split_first :: "char \<Rightarrow> string \<Rightarrow> string \<times> string" where
  "split_first c s = (takeWhile (\<lambda>x. x \<noteq> c) s, drop 1 (dropWhile (\<lambda>x. x \<noteq> c) s))"

definition split_scheme :: "string \<Rightarrow> string \<times> string" where
  "split_scheme url =
     (let head = takeWhile (\<lambda>x. x \<noteq> CHR '':'') url
      in if CHR '':'' \<in> set url \<and> head \<noteq> [] \<and> is_ascii_alpha (hd url) \<and> list_all scheme_char head
         then (lower head, drop (length head + 1) url)
         else ([], url))"

definition split_netloc :: "string \<Rightarrow> string \<times> string" where
  "split_netloc url =
     (if take 2 url = ''//''
      then (takeWhile (\<lambda>x. x \<notin> set ''/?#'') (drop 2 url),
            dropWhile (\<lambda>x. x \<notin> set ''/?#'') (drop 2 url))
      else ([], url))"

definition split_params :: "string \<Rightarrow> string \<times> string" where
  "split_params url =
     (let seg = path_name url;
          dir = take (length url - length seg) url
      in if CHR '';'' \<in> set seg
         then (dir @ takeWhile (\<lambda>x. x \<noteq> CHR '';'') seg, drop 1 (dropWhile (\<lambda>x. x \<noteq> CHR '';'') seg))
         else (url, []))"

definition urlparse :: "string \<Rightarrow> error + url_parts" where
  "urlparse url0 =
     (let url1 = dropWhile (\<lambda>c. c \<le> CHR 0x20) url0;
          url2 = filter (\<lambda>c. c \<notin> set [CHR 0x09, CHR 0x0D, CHR 0x0A]) url1;
          (scheme, url3) = split_scheme url2;
          (netloc, url4) = split_netloc url3
      in
      if (CHR ''['' \<in> set netloc) \<noteq> (CHR '']'' \<in> set netloc) then Inl (ValueError ''Invalid IPv6 URL'')
      else
        (let (url5, fragment) = (if CHR ''#'' \<in> set url4 then split_first (CHR ''#'') url4 else (url4, []));
             (url6, query) = (if CHR ''?'' \<in> set url5 then split_first (CHR ''?'') url5 else (url5, []));
             (url7, params) = (if scheme \<in> set uses_params \<and> CHR '';'' \<in> set url6
                               then split_params url6 else (url6, []))
         in Inr \<lparr>u_scheme = scheme, u_netloc = netloc, u_path = url7, u_params = params,
                 u_query = query, u_fragment = fragment\<rparr>))"

text \<open>
  \<open>urllib.parse.unquote\<close> on bytes: \<open>%XY\<close> with two hexadecimal digits is the byte they
  denote, and everything else stands as it is.
\<close>

definition hex_value :: "char \<Rightarrow> nat option" where
  "hex_value c = map_of (zip ''0123456789abcdefABCDEF''
     [0, 1, 2, 3, 4, 5, 6, 7, 8, 9, 10, 11, 12, 13, 14, 15, 10, 11, 12, 13, 14, 15]) c"

fun unquote :: "string \<Rightarrow> string" where
  "unquote (p # a # b # rest) =
     (if p = CHR ''%'' then
        (case (hex_value a, hex_value b) of
           (Some x, Some y) \<Rightarrow> char_of (16 * x + y) # unquote rest
         | _ \<Rightarrow> p # unquote (a # b # rest))
      else p # unquote (a # b # rest))"
| "unquote s = s"

definition strip_fragment_query :: "string \<Rightarrow> error + string" where
  "strip_fragment_query v =
     (case urlparse v of Inl e \<Rightarrow> Inl e | Inr parsed \<Rightarrow> Inr (unquote (u_path parsed)))"

definition preserve_suffix :: "string \<Rightarrow> string \<Rightarrow> error + string" where
  "preserve_suffix original new_path_only =
     (case urlparse original of
        Inl e \<Rightarrow> Inl e
      | Inr parsed \<Rightarrow>
          Inr (new_path_only
               @ (if u_query parsed \<noteq> [] then ''?'' @ u_query parsed else [])
               @ (if u_fragment parsed \<noteq> [] then ''#'' @ u_fragment parsed else [])))"


section \<open>polish_links.py: paths and the tree\<close>

text \<open>
  A resolved absolute path is the list of its parts below the file-system root, as POSIX
  paths have them; the tree holds no symbolic link, so \<open>resolve\<close> removes \<open>.\<close> and
  \<open>..\<close> and nothing else. The tree lists its files, each with its text, in the order
  \<open>rglob\<close> yields them.
\<close>

type_synonym ppath = "string list"

record ptree =
  pfiles :: "(ppath \<times> string) list"
  pdirs :: "ppath list"

definition pexists :: "ptree \<Rightarrow> ppath \<Rightarrow> bool" where
  "pexists t p \<longleftrightarrow> p = [] \<or> p \<in> set (map fst (pfiles t)) \<or> p \<in> set (pdirs t)"

definition is_file :: "ptree \<Rightarrow> ppath \<Rightarrow> bool" where
  "is_file t p \<longleftrightarrow> p \<in> set (map fst (pfiles t))"

definition read_text :: "ptree \<Rightarrow> ppath \<Rightarrow> string" where
  "read_text t p = (case map_of (pfiles t) p of Some text \<Rightarrow> text | None \<Rightarrow> [])"

definition write_text :: "ptree \<Rightarrow> ppath \<Rightarrow> string \<Rightarrow> ptree" where
  "write_text t p text =
     t\<lparr>pfiles := (if p \<in> set (map fst (pfiles t))
                  then map (\<lambda>(q, c). if q = p then (q, text) else (q, c)) (pfiles t)
                  else pfiles t @ [(p, text)])\<rparr>"

definition parent :: "ppath \<Rightarrow> ppath" where
  "parent p = butlast p"

definition name_of :: "ppath \<Rightarrow> string" where
  "name_of p = (if p = [] then [] else last p)"

text \<open>\<open>str(p)\<close> and \<open>p.relative_to(repo).as_posix()\<close>.\<close>

definition str_path :: "ppath \<Rightarrow> string" where
  "str_path p = (if p = [] then ''/'' else concat (map (\<lambda>c. CHR ''/'' # c) p))"

definition join_parts :: "string list \<Rightarrow> string" where
  "join_parts ps = (if ps = [] then ''.'' else drop 1 (concat (map (\<lambda>c. CHR ''/'' # c) ps)))"

definition relative_to :: "ppath \<Rightarrow> ppath \<Rightarrow> error + string" where
  "relative_to repo p =
     (if prefix repo p then Inr (join_parts (drop (length repo) p))
      else Inl (ValueError ''not in the subpath''))"

text \<open>The parts of a path given as text, \<open>dir / raw\<close> and \<open>resolve\<close>.\<close>

definition raw_parts :: "string \<Rightarrow> string list" where
  "raw_parts raw = filter (\<lambda>c. c \<noteq> [] \<and> c \<noteq> ''.'') (split_on (CHR ''/'') raw)"

definition join_raw :: "ppath \<Rightarrow> string \<Rightarrow> ppath" where
  "join_raw dir raw = (if take 1 raw = ''/'' then raw_parts raw else dir @ raw_parts raw)"

definition resolve :: "ppath \<Rightarrow> ppath" where
  "resolve p = foldl (\<lambda>acc part. if part = ''..'' then butlast acc else acc @ [part]) [] p"

definition resolve_target :: "ppath \<Rightarrow> string \<Rightarrow> error + ppath" where
  "resolve_target html_file link_val =
     (case strip_fragment_query link_val of
        Inl e \<Rightarrow> Inl e
      | Inr raw \<Rightarrow> Inr (resolve (join_raw (parent html_file) raw)))"

text \<open>\<open>os.path.relpath(target, start=from_dir)\<close> with \<open>/\<close> between the parts.\<close>

fun common_prefix_length :: "'a list \<Rightarrow> 'a list \<Rightarrow> nat" where
  "common_prefix_length (x # xs) (y # ys) = (if x = y then Suc (common_prefix_length xs ys) else 0)"
| "common_prefix_length xs ys = 0"

definition to_rel :: "ppath \<Rightarrow> ppath \<Rightarrow> string" where
  "to_rel from_dir target =
     (let i = common_prefix_length from_dir target
      in join_parts (replicate (length from_dir - i) ''..'' @ drop i target))"

definition build_filename_index :: "ptree \<Rightarrow> ppath \<Rightarrow> (string \<times> ppath list) list" where
  "build_filename_index t build_plan_root =
     foldl (\<lambda>idx p. setdefault_append (lower (name_of p)) p idx) []
       (filter (\<lambda>p. strict_prefix build_plan_root p) (map fst (pfiles t)))"

definition index_get :: "(string \<times> ppath list) list \<Rightarrow> string \<Rightarrow> ppath list" where
  "index_get idx k = (case map_of idx k of Some ps \<Rightarrow> ps | None \<Rightarrow> [])"


section \<open>polish_links.py: the best candidate\<close>

definition score :: "ppath \<Rightarrow> ppath \<Rightarrow> nat \<times> int \<times> string" where
  "score cur_dir p =
     (let same_dir = (if parent p = cur_dir then 1 else 0);
          relp = to_rel cur_dir p;
          depth = count_list relp (CHR ''/'') + 1
      in (same_dir, - int depth, lower (str_path p)))"

definition choose_best_candidate :: "ppath \<Rightarrow> ppath list \<Rightarrow> error + ppath" where
  "choose_best_candidate current_html candidates =
     (let cur_dir = parent current_html
      in case py_sorted_reverse (score cur_dir) candidates of
           [] \<Rightarrow> Inl IndexError
         | best # rest \<Rightarrow> Inr best)"


section \<open>polish_links.py: the scan of the documents\<close>

record LinkIssue =
  doc_file :: string
  attr :: string
  original :: string
  resolved_from :: string
  status :: string
  suggestion :: string

text \<open>
  One turn of the loop over the matches of \<open>ATTR_RE\<close> in a document. A match is given by
  the attribute, the value and the span of the value; the state is the lists \<open>broken\<close>
  and \<open>fixed\<close> and the replacements of the document.
\<close>

type_synonym attr_match = "string \<times> string \<times> nat \<times> nat"

type_synonym scan_state = "LinkIssue list \<times> LinkIssue list \<times> (nat \<times> nat \<times> string) list"

definition make_issue :: "ppath \<Rightarrow> ppath \<Rightarrow> string \<Rightarrow> string \<Rightarrow> string \<Rightarrow> string \<Rightarrow> error + LinkIssue" where
  "make_issue repo f a val st sugg =
     (case relative_to repo f of
        Inl e \<Rightarrow> Inl e
      | Inr file_rel \<Rightarrow>
          (case relative_to repo (parent f) of
             Inl e \<Rightarrow> Inl e
           | Inr dir_rel \<Rightarrow>
               Inr \<lparr>doc_file = file_rel, attr = a, original = val, resolved_from = dir_rel,
                    status = st, suggestion = sugg\<rparr>))"

definition process_match ::
  "ptree \<Rightarrow> (string \<times> ppath list) list \<Rightarrow> ppath \<Rightarrow> ppath \<Rightarrow> attr_match \<Rightarrow> scan_state
    \<Rightarrow> error + scan_state" where
  "process_match t filename_index repo f m st =
     (case (m, st) of ((a, val, start_pos, end_pos), (broken, fixed, replacements)) \<Rightarrow>
      if val = [] \<or> is_external val then Inr st
      else if is_disk_path val then Inr st
      else if startswith (lower val) ''data:'' then Inr st
      else
        (case strip_fragment_query val of
           Inl e \<Rightarrow> Inl e
         | Inr raw_path \<Rightarrow>
             if raw_path = [] then Inr st
             else
               (case resolve_target f val of
                  Inl e \<Rightarrow> Inl e
                | Inr target \<Rightarrow>
                    if pexists t target then Inr st
                    else
                      (let filename = lower (name_of (raw_parts raw_path));
                           candidates = index_get filename_index filename
                       in
                       if candidates = [] then
                         (case make_issue repo f a val ''BROKEN'' [] of
                            Inl e \<Rightarrow> Inl e
                          | Inr b \<Rightarrow> Inr (broken @ [b], fixed, replacements))
                       else
                         (case choose_best_candidate f candidates of
                            Inl e \<Rightarrow> Inl e
                          | Inr best \<Rightarrow>
                              (case preserve_suffix val (to_rel (parent f) best) of
                                 Inl e \<Rightarrow> Inl e
                               | Inr new_val \<Rightarrow>
                                   (case make_issue repo f a val ''BROKEN'' new_val of
                                      Inl e \<Rightarrow> Inl e
                                    | Inr b \<Rightarrow>
                                        (case make_issue repo f a val ''FIXED'' new_val of
                                           Inl e \<Rightarrow> Inl e
                                         | Inr x \<Rightarrow>
                                             Inr (broken @ [b], fixed @ [x],
                                                  replacements @ [(start_pos, end_pos, new_val)])))))))))"

fun process_matches ::
  "ptree \<Rightarrow> (string \<times> ppath list) list \<Rightarrow> ppath \<Rightarrow> ppath \<Rightarrow> attr_match list \<Rightarrow> scan_state
    \<Rightarrow> scan_state \<times> error option" where
  "process_matches t filename_index repo f [] st = (st, None)"
| "process_matches t filename_index repo f (m # ms) st =
     (case process_match t filename_index repo f m st of
        Inl e \<Rightarrow> (st, Some e)
      | Inr st' \<Rightarrow> process_matches t filename_index repo f ms st')"

text \<open>The rewriting of a document: the backup, written when there is none, and the new text.\<close>

definition bak_path :: "ppath \<Rightarrow> ppath" where
  "bak_path f = butlast f @ [name_of f @ ''.bak_polish'']"

definition apply_replacements :: "string \<Rightarrow> (nat \<times> nat \<times> string) list \<Rightarrow> string" where
  "apply_replacements text replacements =
     foldl (\<lambda>new_text (start_pos, end_pos, new_val).
              take start_pos new_text @ new_val @ drop end_pos new_text)
       text (py_sorted_reverse fst replacements)"

definition write_fixes :: "ptree \<Rightarrow> ppath \<Rightarrow> string \<Rightarrow> (nat \<times> nat \<times> string) list \<Rightarrow> ptree" where
  "write_fixes t f text replacements =
     (let bak = bak_path f;
          t1 = (if \<not> pexists t bak then write_text t bak text else t)
      in write_text t1 f (apply_replacements text replacements))"

text \<open>
  The loop of \<open>main\<close> over the documents. \<open>finditer\<close> gives the matches of \<open>ATTR_RE\<close> in a
  text, in the order of the text. The loop returns the two lists and the tree as it leaves
  them, with the error that ended it when one did.
\<close>

fun process_files ::
  "(string \<Rightarrow> attr_match list) \<Rightarrow> bool \<Rightarrow> (string \<times> ppath list) list \<Rightarrow> ppath \<Rightarrow> ppath list
    \<Rightarrow> LinkIssue list \<times> LinkIssue list \<times> ptree \<Rightarrow> (LinkIssue list \<times> LinkIssue list \<times> ptree) \<times> error option" where
  "process_files finditer apply_flag filename_index repo [] s = (s, None)"
| "process_files finditer apply_flag filename_index repo (f # fs) (broken, fixed, t) =
     (let text = read_text t f
      in case process_matches t filename_index repo f (finditer text) (broken, fixed, []) of
           ((broken', fixed', replacements), Some e) \<Rightarrow> ((broken', fixed', t), Some e)
         | ((broken', fixed', replacements), None) \<Rightarrow>
             process_files finditer apply_flag filename_index repo fs
               (broken', fixed',
                if replacements \<noteq> [] \<and> apply_flag then write_fixes t f text replacements else t))"

definition pmkdir :: "ptree \<Rightarrow> ppath \<Rightarrow> error + ptree" where
  "pmkdir t p =
     (if list_ex (\<lambda>q. is_file t q) (map (\<lambda>i. take i p) [1 ..< Suc (length p)])
      then Inl (OSError (str_path p))
      else Inr (t\<lparr>pdirs := pdirs t @ filter (\<lambda>q. q \<notin> set (pdirs t))
                                      (map (\<lambda>i. take i p) [1 ..< Suc (length p)])\<rparr>))"

definition html_files :: "ptree \<Rightarrow> ppath \<Rightarrow> ppath list" where
  "html_files t bp =
     sort (filter (\<lambda>p. strict_prefix bp p \<and> suffix ''.html'' (name_of p)) (map fst (pfiles t)))"

text \<open>
  \<open>main\<close> up to the end of the loop over the documents. \<open>repo\<close> and \<open>bp\<close> are the
  resolved root and build-plan folder and \<open>stamp\<close> is what \<open>stamp()\<close> returned. The two
  reports written after the loop are outside the model.
\<close>

definition polish_main ::
  "(string \<Rightarrow> attr_match list) \<Rightarrow> bool \<Rightarrow> ppath \<Rightarrow> ppath \<Rightarrow> string \<Rightarrow> ptree
    \<Rightarrow> (LinkIssue list \<times> LinkIssue list \<times> ptree) \<times> error option" where
  "polish_main finditer apply_flag repo bp stamp t =
     (if \<not> pexists t bp then (([], [], t), Some (SystemExit ''Build plan folder not found''))
      else
        (case pmkdir t (repo @ [''reports'', ''polish'', stamp]) of
           Inl e \<Rightarrow> (([], [], t), Some e)
         | Inr t1 \<Rightarrow>
             process_files finditer apply_flag (build_filename_index t1 bp) repo
               (html_files t1 bp) ([], [], t1)))"


section \<open>Facts about strings and paths\<close>

lemma lower_char_slash [simp]: "lower_char c = CHR ''/'' \<longleftrightarrow> c = CHR ''/''"
  by (auto simp add: lower_char_def split: if_splits)

lemma lower_append: "lower (a @ b) = lower a @ lower b"
  by (simp add: lower_def)

lemma lower_Cons: "lower (c # cs) = lower_char c # lower cs"
  by (simp add: lower_def)

lemma lower_char_idem [simp]: "lower_char (lower_char c) = lower_char c"
  by (auto simp add: lower_char_def split: if_splits)

lemma lower_idem [simp]: "lower (lower s) = lower s"
  by (simp add: lower_def)

lemma lower_char_slash2 [simp]: "CHR ''/'' = lower_char c \<longleftrightarrow> c = CHR ''/''"
  by (auto simp add: lower_char_def split: if_splits)

lemma lower_char_slash3 [simp]: "lower_char (CHR ''/'') = CHR ''/''"
  by (simp add: lower_char_def)

lemma slash_lower [simp]: "CHR ''/'' \<in> set (lower s) \<longleftrightarrow> CHR ''/'' \<in> set s"
  by (auto simp add: lower_def image_iff)

lemma sublist_sep:
  assumes "c \<notin> set k"
  shows "sublist k (d @ c # n) \<longleftrightarrow> sublist k d \<or> sublist k n"
proof
  assume "sublist k (d @ c # n)"
  then consider "sublist k d" | "sublist k (c # n)"
    | xs1 xs2 where "k = xs1 @ xs2" "suffix xs1 d" "prefix xs2 (c # n)"
    unfolding sublist_append by blast
  then show "sublist k d \<or> sublist k n"
  proof cases
    case 1 then show ?thesis by simp
  next
    case 2
    then have "prefix k (c # n) \<or> sublist k n" by (simp add: sublist_Cons_right)
    moreover have "prefix k (c # n) \<Longrightarrow> k = []" using assms by (cases k) auto
    ultimately show ?thesis by auto
  next
    case 3
    show ?thesis
    proof (cases xs2)
      case Nil
      with 3 show ?thesis by auto
    next
      case (Cons y ys)
      with 3 have "c \<in> set k" by auto
      with assms show ?thesis by simp
    qed
  qed
next
  assume "sublist k d \<or> sublist k n"
  then show "sublist k (d @ c # n)"
  proof
    assume "sublist k d" then show ?thesis by (auto simp: sublist_append)
  next
    assume "sublist k n"
    then have "sublist k (c # n)" by (simp add: sublist_Cons_right)
    then show ?thesis by (auto simp: sublist_append)
  qed
qed

lemma any_in_sep:
  assumes "\<forall>k\<in>set ks. CHR ''/'' \<notin> set k"
  shows "any_in ks (lower (P @ CHR ''/'' # n)) \<longleftrightarrow> any_in ks (lower P) \<or> any_in ks (lower n)"
  using assms
  by (induction ks) (auto simp: any_in_def py_in_def lower_append lower_Cons sublist_sep)

lemma path_name_no_slash: "CHR ''/'' \<notin> set (path_name p)"
proof -
  have "CHR ''/'' \<notin> set (takeWhile (\<lambda>c. c \<noteq> CHR ''/'') (rev p))"
    by (auto dest: set_takeWhileD)
  then show ?thesis by (simp add: path_name_def)
qed

lemma path_name_suffix: "suffix (path_name p) p"
proof -
  have "prefix (takeWhile (\<lambda>c. c \<noteq> CHR ''/'') (rev p)) (rev p)"
    by (metis prefixI takeWhile_dropWhile_id)
  then show ?thesis
    unfolding path_name_def by (metis rev_rev_ident suffix_to_prefix)
qed

lemma path_name_dest: "CHR ''/'' \<notin> set n \<Longrightarrow> path_name (P @ CHR ''/'' # n) = n"
proof -
  assume a: "CHR ''/'' \<notin> set n"
  have "takeWhile (\<lambda>c. c \<noteq> CHR ''/'') (rev n @ CHR ''/'' # rev P) = rev n"
    using a by (subst takeWhile_append2) auto
  then show ?thesis by (simp add: path_name_def)
qed

lemma path_name_self: "CHR ''/'' \<notin> set n \<Longrightarrow> path_name n = n"
proof -
  assume a: "CHR ''/'' \<notin> set n"
  have t: "takeWhile (\<lambda>c. c \<noteq> CHR ''/'') (rev n) = rev n"
    using a by auto
  show ?thesis unfolding path_name_def t by simp
qed

lemma any_in_name_rel: "any_in ks (lower (path_name p)) \<Longrightarrow> any_in ks (lower p)"
proof -
  obtain q where "p = q @ path_name p" using path_name_suffix[of p] by (auto simp: suffix_def)
  then have "lower p = lower q @ lower (path_name p)" by (metis lower_append)
  then show "any_in ks (lower (path_name p)) \<Longrightarrow> any_in ks (lower p)"
    by (auto simp: any_in_def py_in_def list_ex_iff sublist_append)
qed

lemma replace_backslash_id: "CHR 0x5C \<notin> set s \<Longrightarrow> replace_backslash s = s"
  by (induction s) (auto simp: replace_backslash_def)

lemma lower_Nil: "lower [] = []"
  by (simp add: lower_def)

lemmas str_eval = startswith_def any_in_def py_in_def sublist_code lower_Cons lower_Nil
  lower_char_def

lemma replace_backslash_Cons:
  "replace_backslash (c # cs) = (if c = CHR 0x5C then CHR ''/'' else c) # replace_backslash cs"
  by (simp add: replace_backslash_def)


section \<open>The destination classifier applied to a destination\<close>

text \<open>
  Every keyword of the classifier is free of \<open>/\<close>, so a keyword occurs in
  \<open>dir/name\<close> exactly when it occurs in \<open>dir\<close> or in \<open>name\<close>. With it the
  classifier, run on the path it returned, returns that path again.
\<close>

lemma hints_any:
  "list_ex (\<lambda>h. py_in (lower h) s) (map lower BUILD_PLAN_HINTS) = any_in (map lower BUILD_PLAN_HINTS) s"
  by (simp add: any_in_def list_ex_iff)

lemma hints_sep:
  "any_in (map lower BUILD_PLAN_HINTS) (lower (P @ CHR ''/'' # n))
     = (any_in (map lower BUILD_PLAN_HINTS) (lower P) \<or> any_in (map lower BUILD_PLAN_HINTS) (lower n))"
  by (rule any_in_sep) (simp add: BUILD_PLAN_HINTS_def)

lemma choose_destination_at_dir:
  assumes ns: "CHR ''/'' \<notin> set name"
  shows "choose_destination (P @ CHR ''/'' # name) name =
     (let name_l = lower name;
          ext = lower (path_suffix name);
          pl = lower P
      in
      if name \<in> set CANONICAL_ROOT_FILES \<or> name_l \<in> set CANONICAL_ROOT_FILES then
        (''Build_plan/'' @ name, ''Canonical plan entrypoint'')
      else if startswith (lower (P @ CHR ''/'' # name)) ''build_plan/'' then
        (replace_backslash (P @ CHR ''/'' # name), ''Already in Build_plan'')
      else if ext = ''.html'' \<and> (any_in (map lower BUILD_PLAN_HINTS) pl
                                \<or> any_in (map lower BUILD_PLAN_HINTS) name_l) then
        (''Build_plan/'' @ name, ''HTML appears to be build-plan related'')
      else if ext = ''.md'' then
        (if any_in [''contract'', ''schema'', ''spec''] pl
            \<or> any_in [''contract'', ''schema'', ''spec''] name_l
         then (''spec/'' @ name, ''Spec-like markdown'')
         else (''docs/'' @ name, ''General markdown documentation''))
      else if ext \<in> set [''.json'', ''.yaml'', ''.yml'']
              \<and> (any_in [''schema'', ''contract'', ''spec''] pl
                 \<or> any_in [''schema'', ''contract'', ''spec''] name_l) then
        (''spec/'' @ name, ''Schema/contract file'')
      else if ext \<in> set [''.py'', ''.js'', ''.ts'', ''.tsx'', ''.jsx''] then
        (if any_in [''tool'', ''script'', ''build'', ''validate'', ''export''] pl
            \<or> any_in [''tool'', ''script'', ''build'', ''validate'', ''export''] name_l
         then (''tools/'' @ name, ''Tooling script'')
         else (''src/'' @ name, ''Source code''))
      else if ext \<in> set [''.png'', ''.jpg'', ''.jpeg'', ''.webp'', ''.gif'', ''.svg''] then
        (if any_in [''build_plan'', ''micro'', ''reader'', ''module'',
                    ''m0'', ''m1'', ''m2'', ''m3'', ''m4'', ''m5'', ''m6'', ''m7'', ''m8''] pl
            \<or> any_in [''build_plan'', ''micro'', ''reader'', ''module'',
                    ''m0'', ''m1'', ''m2'', ''m3'', ''m4'', ''m5'', ''m6'', ''m7'', ''m8''] name_l
         then (''Build_plan/assets/'' @ name, ''Build-plan asset image'')
         else (''docs/assets/'' @ name, ''Documentation asset image''))
      else if any_in [''fixture'', ''toybook'', ''book1window''] pl
              \<or> any_in [''fixture'', ''toybook'', ''book1window''] name_l then
        (''fixtures/'' @ name, ''Fixture file'')
      else if any_in [''golden'', ''snapshot'', ''expected_output''] pl
              \<or> any_in [''golden'', ''snapshot'', ''expected_output''] name_l then
        (''golden/'' @ name, ''Golden output'')
      else if ext \<in> set KEEP_EXTENSIONS then
        (''docs/misc/'' @ name, ''Misc keep-extension file'')
      else
        (''archive/_unknown_review/'' @ name, ''Unknown file type; review''))"
proof -
  have s4: "any_in [''contract'', ''schema'', ''spec''] (lower (P @ CHR ''/'' # name))
      = (any_in [''contract'', ''schema'', ''spec''] (lower P)
         \<or> any_in [''contract'', ''schema'', ''spec''] (lower name))"
    by (rule any_in_sep) simp
  have s5: "any_in [''schema'', ''contract'', ''spec''] (lower (P @ CHR ''/'' # name))
      = (any_in [''schema'', ''contract'', ''spec''] (lower P)
         \<or> any_in [''schema'', ''contract'', ''spec''] (lower name))"
    by (rule any_in_sep) simp
  have s6: "any_in [''tool'', ''script'', ''build'', ''validate'', ''export''] (lower (P @ CHR ''/'' # name))
      = (any_in [''tool'', ''script'', ''build'', ''validate'', ''export''] (lower P)
         \<or> any_in [''tool'', ''script'', ''build'', ''validate'', ''export''] (lower name))"
    by (rule any_in_sep) simp
  have s7: "any_in [''build_plan'', ''micro'', ''reader'', ''module'',
                    ''m0'', ''m1'', ''m2'', ''m3'', ''m4'', ''m5'', ''m6'', ''m7'', ''m8''] (lower (P @ CHR ''/'' # name))
      = (any_in [''build_plan'', ''micro'', ''reader'', ''module'',
                    ''m0'', ''m1'', ''m2'', ''m3'', ''m4'', ''m5'', ''m6'', ''m7'', ''m8''] (lower P)
         \<or> any_in [''build_plan'', ''micro'', ''reader'', ''module'',
                    ''m0'', ''m1'', ''m2'', ''m3'', ''m4'', ''m5'', ''m6'', ''m7'', ''m8''] (lower name))"
    by (rule any_in_sep) simp
  have s8: "any_in [''fixture'', ''toybook'', ''book1window''] (lower (P @ CHR ''/'' # name))
      = (any_in [''fixture'', ''toybook'', ''book1window''] (lower P)
         \<or> any_in [''fixture'', ''toybook'', ''book1window''] (lower name))"
    by (rule any_in_sep) simp
  have s9: "any_in [''golden'', ''snapshot'', ''expected_output''] (lower (P @ CHR ''/'' # name))
      = (any_in [''golden'', ''snapshot'', ''expected_output''] (lower P)
         \<or> any_in [''golden'', ''snapshot'', ''expected_output''] (lower name))"
    by (rule any_in_sep) simp
  show ?thesis
    unfolding choose_destination_def Let_def
    by (simp only: hints_any hints_sep s4 s5 s6 s7 s8 s9 path_name_self[OF ns])
qed

lemma choose_destination_fixed:
  assumes nb: "CHR 0x5C \<notin> set rel" and nm: "name = path_name rel"
  shows "fst (choose_destination (fst (choose_destination rel name)) name)
           = fst (choose_destination rel name)
         \<and> path_name (fst (choose_destination rel name)) = name
         \<and> CHR 0x5C \<notin> set (fst (choose_destination rel name))"
proof -
  have ns: "CHR ''/'' \<notin> set name" by (simp add: nm path_name_no_slash)
  have "set name \<subseteq> set rel" using path_name_suffix[of rel] nm by (simp add: set_mono_suffix)
  with nb have nbn: "CHR 0x5C \<notin> set name" by auto
  have rbn: "replace_backslash name = name" by (rule replace_backslash_id[OF nbn])
  have up: "any_in ks (lower name) \<Longrightarrow> any_in ks (lower rel)" for ks
    unfolding nm by (rule any_in_name_rel)
  define E where "E = lower (path_suffix name)"
  define N where "N = lower name"
  define c1 where "c1 \<longleftrightarrow> name \<in> set CANONICAL_ROOT_FILES \<or> N \<in> set CANONICAL_ROOT_FILES"
  define c2 where "c2 \<longleftrightarrow> startswith (lower rel) ''build_plan/''"
  define h3 where "h3 \<longleftrightarrow> any_in (map lower BUILD_PLAN_HINTS) (lower rel)"
  define k4 where "k4 \<longleftrightarrow> any_in [''contract'', ''schema'', ''spec''] (lower rel)"
  define k5 where "k5 \<longleftrightarrow> any_in [''schema'', ''contract'', ''spec''] (lower rel)"
  define k6 where "k6 \<longleftrightarrow> any_in [''tool'', ''script'', ''build'', ''validate'', ''export''] (lower rel)"
  define k7 where "k7 \<longleftrightarrow> any_in [''build_plan'', ''micro'', ''reader'', ''module'',
                    ''m0'', ''m1'', ''m2'', ''m3'', ''m4'', ''m5'', ''m6'', ''m7'', ''m8''] (lower rel)"
  define k8 where "k8 \<longleftrightarrow> any_in [''fixture'', ''toybook'', ''book1window''] (lower rel)"
  define k9 where "k9 \<longleftrightarrow> any_in [''golden'', ''snapshot'', ''expected_output''] (lower rel)"
  define a3 where "a3 \<longleftrightarrow> any_in (map lower BUILD_PLAN_HINTS) N"
  define a4 where "a4 \<longleftrightarrow> any_in [''contract'', ''schema'', ''spec''] N"
  define a5 where "a5 \<longleftrightarrow> any_in [''schema'', ''contract'', ''spec''] N"
  define a6 where "a6 \<longleftrightarrow> any_in [''tool'', ''script'', ''build'', ''validate'', ''export''] N"
  define a7 where "a7 \<longleftrightarrow> any_in [''build_plan'', ''micro'', ''reader'', ''module'',
                    ''m0'', ''m1'', ''m2'', ''m3'', ''m4'', ''m5'', ''m6'', ''m7'', ''m8''] N"
  define a8 where "a8 \<longleftrightarrow> any_in [''fixture'', ''toybook'', ''book1window''] N"
  define a9 where "a9 \<longleftrightarrow> any_in [''golden'', ''snapshot'', ''expected_output''] N"
  define e5 where "e5 \<longleftrightarrow> E \<in> set [''.json'', ''.yaml'', ''.yml'']"
  define e6 where "e6 \<longleftrightarrow> E \<in> set [''.py'', ''.js'', ''.ts'', ''.tsx'', ''.jsx'']"
  define e7 where "e7 \<longleftrightarrow> E \<in> set [''.png'', ''.jpg'', ''.jpeg'', ''.webp'', ''.gif'', ''.svg'']"
  define e10 where "e10 \<longleftrightarrow> E \<in> set KEEP_EXTENSIONS"
  define d where "d = fst (choose_destination rel name)"
  have first: "d =
      (if c1 then ''Build_plan/'' @ name
       else if c2 then replace_backslash rel
       else if E = ''.html'' \<and> h3 then ''Build_plan/'' @ name
       else if E = ''.md'' then (if k4 then ''spec/'' @ name else ''docs/'' @ name)
       else if e5 \<and> k5 then ''spec/'' @ name
       else if e6 then (if k6 then ''tools/'' @ name else ''src/'' @ name)
       else if e7 then (if k7 then ''Build_plan/assets/'' @ name else ''docs/assets/'' @ name)
       else if k8 then ''fixtures/'' @ name
       else if k9 then ''golden/'' @ name
       else if e10 then ''docs/misc/'' @ name
       else ''archive/_unknown_review/'' @ name)"
    unfolding d_def choose_destination_def Let_def c1_def c2_def h3_def k4_def k5_def k6_def k7_def
      k8_def k9_def e5_def e6_def e7_def e10_def E_def N_def hints_any path_name_self[OF ns]
    by (simp only: if_distrib[of fst] fst_conv cong: if_cong)
  have n3: "a3 \<Longrightarrow> h3" and n4: "a4 \<Longrightarrow> k4" and n5: "a5 \<Longrightarrow> k5" and n6: "a6 \<Longrightarrow> k6"
    and n7: "a7 \<Longrightarrow> k7" and n8: "a8 \<Longrightarrow> k8" and n9: "a9 \<Longrightarrow> k9"
    unfolding h3_def k4_def k5_def k6_def k7_def k8_def k9_def
      a3_def a4_def a5_def a6_def a7_def a8_def a9_def N_def using up by blast+
  have ee: "E = ''.html'' \<Longrightarrow> e10" "E = ''.md'' \<Longrightarrow> e10" "e5 \<Longrightarrow> e10" "e6 \<Longrightarrow> e10" "e7 \<Longrightarrow> e10"
    unfolding e5_def e6_def e7_def e10_def KEEP_EXTENSIONS_def by auto
  let ?G = "\<lambda>d. fst (choose_destination d name) = d \<and> path_name d = name \<and> CHR 0x5C \<notin> set d"
  have at: "choose_destination (P @ CHR ''/'' # name) name =
      (if c1 then (''Build_plan/'' @ name, ''Canonical plan entrypoint'')
      else if startswith (lower (P @ CHR ''/'' # name)) ''build_plan/'' then
        (replace_backslash (P @ CHR ''/'' # name), ''Already in Build_plan'')
      else if E = ''.html'' \<and> (any_in (map lower BUILD_PLAN_HINTS) (lower P) \<or> a3) then
        (''Build_plan/'' @ name, ''HTML appears to be build-plan related'')
      else if E = ''.md'' then
        (if any_in [''contract'', ''schema'', ''spec''] (lower P) \<or> a4
         then (''spec/'' @ name, ''Spec-like markdown'')
         else (''docs/'' @ name, ''General markdown documentation''))
      else if e5 \<and> (any_in [''schema'', ''contract'', ''spec''] (lower P) \<or> a5) then
        (''spec/'' @ name, ''Schema/contract file'')
      else if e6 then
        (if any_in [''tool'', ''script'', ''build'', ''validate'', ''export''] (lower P) \<or> a6
         then (''tools/'' @ name, ''Tooling script'')
         else (''src/'' @ name, ''Source code''))
      else if e7 then
        (if any_in [''build_plan'', ''micro'', ''reader'', ''module'',
                    ''m0'', ''m1'', ''m2'', ''m3'', ''m4'', ''m5'', ''m6'', ''m7'', ''m8''] (lower P)
            \<or> a7
         then (''Build_plan/assets/'' @ name, ''Build-plan asset image'')
         else (''docs/assets/'' @ name, ''Documentation asset image''))
      else if any_in [''fixture'', ''toybook'', ''book1window''] (lower P) \<or> a8 then
        (''fixtures/'' @ name, ''Fixture file'')
      else if any_in [''golden'', ''snapshot'', ''expected_output''] (lower P) \<or> a9 then
        (''golden/'' @ name, ''Golden output'')
      else if e10 then
        (''docs/misc/'' @ name, ''Misc keep-extension file'')
      else
        (''archive/_unknown_review/'' @ name, ''Unknown file type; review''))" for P
    unfolding choose_destination_at_dir[OF ns] Let_def c1_def e5_def e6_def e7_def e10_def E_def N_def
      a3_def a4_def a5_def a6_def a7_def a8_def a9_def
    by (rule refl)
  have hl: "map lower BUILD_PLAN_HINTS = [''build_plan'', ''master_build_plan'', ''microstep'',
      ''microsteps'', ''module'', ''m0'', ''m1'', ''m2'', ''m3'', ''m4'', ''m5'', ''m6'', ''m7'', ''m8'']"
    by (simp add: BUILD_PLAN_HINTS_def lower_Cons lower_Nil lower_char_def)
  have pn: "path_name (P @ CHR ''/'' # name) = name" for P
    by (rule path_name_dest[OF ns])
  note ev = replace_backslash_Cons rbn str_eval hl
  have g1: "?G (P @ CHR ''/'' # name)" if "P = ''Build_plan''" for P
    unfolding at pn using that nbn by (simp add: ev)
  have g1a: "?G (P @ CHR ''/'' # name)" if "P = ''Build_plan/assets''" "\<not> c1" for P
    unfolding at pn using that nbn by (simp add: ev)
  have g2: "?G (replace_backslash rel)" if "\<not> c1" "c2"
  proof -
    have "choose_destination rel name = (replace_backslash rel, ''Already in Build_plan'')"
      unfolding choose_destination_def Let_def using that
      by (simp add: c1_def c2_def N_def)
    then show ?thesis using nb nm by (simp add: replace_backslash_id)
  qed
  have g4s: "?G (P @ CHR ''/'' # name)" if "P = ''spec''" "\<not> c1" "E = ''.md''" for P
    unfolding at pn using that nbn by (simp add: ev)
  have g4d: "?G (P @ CHR ''/'' # name)" if "P = ''docs''" "\<not> c1" "E = ''.md''" "\<not> a4" for P
    unfolding at pn using that nbn by (simp add: ev)
  have g5: "?G (P @ CHR ''/'' # name)"
    if "P = ''spec''" "\<not> c1" "\<not> (E = ''.html'' \<and> a3)" "E \<noteq> ''.md''" "e5" for P
    unfolding at pn using that nbn by (simp add: ev)
  have g6t: "?G (P @ CHR ''/'' # name)"
    if "P = ''tools''" "\<not> c1" "\<not> (E = ''.html'' \<and> a3)" "E \<noteq> ''.md''" "\<not> (e5 \<and> a5)" "e6" for P
    unfolding at pn using that nbn by (simp add: ev)
  have g6s: "?G (P @ CHR ''/'' # name)"
    if "P = ''src''" "\<not> c1" "\<not> (E = ''.html'' \<and> a3)" "E \<noteq> ''.md''" "\<not> (e5 \<and> a5)" "e6" "\<not> a6"
    for P
    unfolding at pn using that nbn by (simp add: ev)
  have g7d: "?G (P @ CHR ''/'' # name)"
    if "P = ''docs/assets''" "\<not> c1" "\<not> (E = ''.html'' \<and> a3)" "E \<noteq> ''.md''" "\<not> (e5 \<and> a5)"
       "\<not> e6" "e7" "\<not> a7" for P
    unfolding at pn using that nbn by (simp add: ev)
  have g8: "?G (P @ CHR ''/'' # name)"
    if "P = ''fixtures''" "\<not> c1" "\<not> (E = ''.html'' \<and> a3)" "E \<noteq> ''.md''" "\<not> (e5 \<and> a5)"
       "\<not> e6" "\<not> e7" for P
    unfolding at pn using that nbn by (simp add: ev)
  have g9: "?G (P @ CHR ''/'' # name)"
    if "P = ''golden''" "\<not> c1" "\<not> (E = ''.html'' \<and> a3)" "E \<noteq> ''.md''" "\<not> (e5 \<and> a5)"
       "\<not> e6" "\<not> e7" "\<not> a8" for P
    unfolding at pn using that nbn by (simp add: ev)
  have g10: "?G (P @ CHR ''/'' # name)"
    if "P = ''docs/misc''" "\<not> c1" "\<not> (E = ''.html'' \<and> a3)" "E \<noteq> ''.md''" "\<not> (e5 \<and> a5)"
       "\<not> e6" "\<not> e7" "\<not> a8" "\<not> a9" "e10" for P
    unfolding at pn using that nbn by (simp add: ev)
  have g11: "?G (P @ CHR ''/'' # name)"
    if "P = ''archive/_unknown_review''" "\<not> c1" "E \<noteq> ''.html''" "E \<noteq> ''.md''" "\<not> e5"
       "\<not> e6" "\<not> e7" "\<not> a8" "\<not> a9" "\<not> e10" for P
    unfolding at pn using that nbn by (simp add: ev)
  have R1: "?G d" if "c1"
  proof -
    have "d = ''Build_plan'' @ CHR ''/'' # name" using that unfolding first by simp
    then show ?thesis using g1[OF refl] by simp
  qed
  have R2: "?G d" if "\<not> c1" "c2"
  proof -
    have "d = replace_backslash rel" using that unfolding first by simp
    then show ?thesis using g2 that by simp
  qed
  have R3: "?G d" if "\<not> c1" "\<not> c2" "E = ''.html'' \<and> h3"
  proof -
    have "d = ''Build_plan'' @ CHR ''/'' # name" using that unfolding first by simp
    then show ?thesis using g1[OF refl] by simp
  qed
  have R4s: "?G d" if "\<not> c1" "\<not> c2" "\<not> (E = ''.html'' \<and> h3)" "E = ''.md''" "k4"
  proof -
    have "d = ''spec'' @ CHR ''/'' # name" using that unfolding first by simp
    then show ?thesis using g4s[OF refl] that by simp
  qed
  have R4d: "?G d" if "\<not> c1" "\<not> c2" "\<not> (E = ''.html'' \<and> h3)" "E = ''.md''" "\<not> k4"
  proof -
    have "d = ''docs'' @ CHR ''/'' # name" using that unfolding first by simp
    moreover have "\<not> a4" using that n4 by blast
    ultimately show ?thesis using g4d[OF refl] that by simp
  qed
  have R5: "?G d" if "\<not> c1" "\<not> c2" "\<not> (E = ''.html'' \<and> h3)" "E \<noteq> ''.md''" "e5 \<and> k5"
  proof -
    have "d = ''spec'' @ CHR ''/'' # name" using that unfolding first by simp
    moreover have "\<not> (E = ''.html'' \<and> a3)" using that n3 by blast
    ultimately show ?thesis using g5[OF refl] that by simp
  qed
  have R6t: "?G d" if "\<not> c1" "\<not> c2" "\<not> (E = ''.html'' \<and> h3)" "E \<noteq> ''.md''" "\<not> (e5 \<and> k5)" "e6" "k6"
  proof -
    have "d = ''tools'' @ CHR ''/'' # name" using that unfolding first by simp
    moreover have "\<not> (E = ''.html'' \<and> a3)" "\<not> (e5 \<and> a5)" using that n3 n5 by blast+
    ultimately show ?thesis using g6t[OF refl] that by simp
  qed
  have R6s: "?G d" if "\<not> c1" "\<not> c2" "\<not> (E = ''.html'' \<and> h3)" "E \<noteq> ''.md''" "\<not> (e5 \<and> k5)" "e6" "\<not> k6"
  proof -
    have "d = ''src'' @ CHR ''/'' # name" using that unfolding first by simp
    moreover have "\<not> (E = ''.html'' \<and> a3)" "\<not> (e5 \<and> a5)" "\<not> a6" using that n3 n5 n6 by blast+
    ultimately show ?thesis using g6s[OF refl] that by simp
  qed
  have R7b: "?G d" if "\<not> c1" "\<not> c2" "\<not> (E = ''.html'' \<and> h3)" "E \<noteq> ''.md''" "\<not> (e5 \<and> k5)" "\<not> e6" "e7" "k7"
  proof -
    have "d = ''Build_plan/assets'' @ CHR ''/'' # name" using that unfolding first by simp
    then show ?thesis using g1a[OF refl] that by simp
  qed
  have R7d: "?G d" if "\<not> c1" "\<not> c2" "\<not> (E = ''.html'' \<and> h3)" "E \<noteq> ''.md''" "\<not> (e5 \<and> k5)" "\<not> e6" "e7" "\<not> k7"
  proof -
    have "d = ''docs/assets'' @ CHR ''/'' # name" using that unfolding first by simp
    moreover have "\<not> (E = ''.html'' \<and> a3)" "\<not> (e5 \<and> a5)" "\<not> a7" using that n3 n5 n7 by blast+
    ultimately show ?thesis using g7d[OF refl] that by simp
  qed
  have R8: "?G d" if "\<not> c1" "\<not> c2" "\<not> (E = ''.html'' \<and> h3)" "E \<noteq> ''.md''" "\<not> (e5 \<and> k5)" "\<not> e6" "\<not> e7" "k8"
  proof -
    have "d = ''fixtures'' @ CHR ''/'' # name" using that unfolding first by simp
    moreover have "\<not> (E = ''.html'' \<and> a3)" "\<not> (e5 \<and> a5)" using that n3 n5 by blast+
    ultimately show ?thesis using g8[OF refl] that by simp
  qed
  have R9: "?G d" if "\<not> c1" "\<not> c2" "\<not> (E = ''.html'' \<and> h3)" "E \<noteq> ''.md''" "\<not> (e5 \<and> k5)" "\<not> e6" "\<not> e7" "\<not> k8" "k9"
  proof -
    have "d = ''golden'' @ CHR ''/'' # name" using that unfolding first by simp
    moreover have "\<not> (E = ''.html'' \<and> a3)" "\<not> (e5 \<and> a5)" "\<not> a8" using that n3 n5 n8 by blast+
    ultimately show ?thesis using g9[OF refl] that by simp
  qed
  have R10: "?G d" if "\<not> c1" "\<not> c2" "\<not> (E = ''.html'' \<and> h3)" "E \<noteq> ''.md''" "\<not> (e5 \<and> k5)" "\<not> e6" "\<not> e7" "\<not> k8" "\<not> k9" "e10"
  proof -
    have "d = ''docs/misc'' @ CHR ''/'' # name" using that unfolding first by simp
    moreover have "\<not> (E = ''.html'' \<and> a3)" "\<not> (e5 \<and> a5)" "\<not> a8" "\<not> a9"
      using that n3 n5 n8 n9 by blast+
    ultimately show ?thesis using g10[OF refl] that by simp
  qed
  have R11: "?G d" if "\<not> c1" "\<not> c2" "\<not> (E = ''.html'' \<and> h3)" "E \<noteq> ''.md''" "\<not> (e5 \<and> k5)" "\<not> e6" "\<not> e7" "\<not> k8" "\<not> k9" "\<not> e10"
  proof -
    have "d = ''archive/_unknown_review'' @ CHR ''/'' # name" using that unfolding first by simp
    moreover have "E \<noteq> ''.html''" "\<not> e5" "\<not> a8" "\<not> a9"
      using that n8 n9 ee by blast+
    ultimately show ?thesis using g11[OF refl] that by simp
  qed
  have T9: "?G d" if "\<not> c1" "\<not> c2" "\<not> (E = ''.html'' \<and> h3)" "E \<noteq> ''.md''" "\<not> (e5 \<and> k5)" "\<not> e6" "\<not> e7" "\<not> k8" "\<not> k9"
    using R10[OF that] R11[OF that] by blast
  have T8: "?G d" if "\<not> c1" "\<not> c2" "\<not> (E = ''.html'' \<and> h3)" "E \<noteq> ''.md''" "\<not> (e5 \<and> k5)" "\<not> e6" "\<not> e7" "\<not> k8"
    using R9[OF that] T9[OF that] by blast
  have T7: "?G d" if "\<not> c1" "\<not> c2" "\<not> (E = ''.html'' \<and> h3)" "E \<noteq> ''.md''" "\<not> (e5 \<and> k5)" "\<not> e6" "\<not> e7"
    using R8[OF that] T8[OF that] by blast
  have T6: "?G d" if "\<not> c1" "\<not> c2" "\<not> (E = ''.html'' \<and> h3)" "E \<noteq> ''.md''" "\<not> (e5 \<and> k5)" "\<not> e6"
    using R7b[OF that] R7d[OF that] T7[OF that] by blast
  have T5: "?G d" if "\<not> c1" "\<not> c2" "\<not> (E = ''.html'' \<and> h3)" "E \<noteq> ''.md''" "\<not> (e5 \<and> k5)"
    using R6t[OF that] R6s[OF that] T6[OF that] by blast
  have T4: "?G d" if "\<not> c1" "\<not> c2" "\<not> (E = ''.html'' \<and> h3)" "E \<noteq> ''.md''"
    using R5[OF that] T5[OF that] by blast
  have T3: "?G d" if "\<not> c1" "\<not> c2" "\<not> (E = ''.html'' \<and> h3)"
    using R4s[OF that] R4d[OF that] T4[OF that] by blast
  have T2: "?G d" if "\<not> c1" "\<not> c2"
    using R3[OF that] T3[OF that] by blast
  have T1: "?G d" if "\<not> c1"
    using R2[OF that] T2[OF that] by blast
  have "?G d"
    using R1 T1 by blast
  then show ?thesis unfolding d_def .
qed


section \<open>The not-needed filter\<close>

text \<open>
  Claim C5. The not-needed filter returns a reason exactly when the extension of the file
  is one of the packaging, backup and log extensions, or the lower-cased path contains one
  of the tokens old, backup, export, exports, tmp, temp and does not contain
  \<open>build_plan\<close> anywhere; the substring suppresses the token rule only. For a record
  whose path lies under \<open>archive/\<close> the planner does not apply the filter: the record
  is never archived as not needed, and unless it is a duplicate its reason and destination
  are those of the destination classifier.
\<close>

theorem classify_not_needed_flags:
  "(classify_not_needed path rel \<noteq> None \<longleftrightarrow>
      lower (path_suffix path) \<in> set NOT_NEEDED_EXTENSIONS
      \<or> (any_in [''old'', ''backup'', ''export'', ''exports'', ''tmp'', ''temp''] (lower rel)
          \<and> \<not> py_in ''build_plan'' (lower rel)))
   \<and> (startswith (lower (rel_path rec)) ''archive/'' \<longrightarrow>
        action (fst (plan_record hash_flag dup_paths rec)) \<noteq> ''MOVE_TO_ARCHIVE_NOT_NEEDED''
        \<and> (\<not> (hash_flag \<and> abs_path rec \<in> dup_paths) \<longrightarrow>
             reason (fst (plan_record hash_flag dup_paths rec))
               = snd (choose_destination (rel_path rec) (path_name (abs_path rec)))
             \<and> dest_rel_path (fst (plan_record hash_flag dup_paths rec))
               = Some (fst (choose_destination (rel_path rec) (path_name (abs_path rec))))))"
proof (intro conjI impI)
  show "classify_not_needed path rel \<noteq> None \<longleftrightarrow>
      lower (path_suffix path) \<in> set NOT_NEEDED_EXTENSIONS
      \<or> (any_in [''old'', ''backup'', ''export'', ''exports'', ''tmp'', ''temp''] (lower rel)
          \<and> \<not> py_in ''build_plan'' (lower rel))"
    unfolding classify_not_needed_def Let_def by simp
next
  assume a: "startswith (lower (rel_path rec)) ''archive/''"
  show "action (fst (plan_record hash_flag dup_paths rec)) \<noteq> ''MOVE_TO_ARCHIVE_NOT_NEEDED''"
    using a unfolding plan_record_def Let_def by simp
next
  assume a: "startswith (lower (rel_path rec)) ''archive/''"
    and b: "\<not> (hash_flag \<and> abs_path rec \<in> dup_paths)"
  show "reason (fst (plan_record hash_flag dup_paths rec))
               = snd (choose_destination (rel_path rec) (path_name (abs_path rec)))"
    using a b unfolding plan_record_def Let_def by auto
next
  assume a: "startswith (lower (rel_path rec)) ''archive/''"
    and b: "\<not> (hash_flag \<and> abs_path rec \<in> dup_paths)"
  show "dest_rel_path (fst (plan_record hash_flag dup_paths rec))
               = Some (fst (choose_destination (rel_path rec) (path_name (abs_path rec))))"
    using a b unfolding plan_record_def Let_def by auto
qed

text \<open>
  The theorem at \<open>archive/old/x.zip\<close>: the filter gives a reason for it, and the planner
  sends it by the destination classifier to the review folder. The substring
  \<open>build_plan\<close> suppresses the token rule, also inside an unrelated name, and not the
  extension rule.
\<close>

theorem classify_not_needed_flags_witness:
  "startswith (lower ''archive/old/x.zip'') ''archive/''
   \<and> classify_not_needed ''archive/old/x.zip'' ''archive/old/x.zip'' = Some ''Packaged artifact (.zip)''
   \<and> classify_not_needed ''Build_plan/export/x.zip'' ''Build_plan/export/x.zip'' = Some ''Packaged artifact (.zip)''
   \<and> classify_not_needed ''Build_plan/export/x.html'' ''Build_plan/export/x.html'' = None
   \<and> classify_not_needed ''my_build_plans/export/x.html'' ''my_build_plans/export/x.html'' = None
   \<and> classify_not_needed ''drafts/export/x.html'' ''drafts/export/x.html'' = Some ''Looks like export/backup/temp''
   \<and> fst (plan_record False {} (new_record ''archive/old/x.zip'' ''archive/old/x.zip'' 1 0))
      = (new_record ''archive/old/x.zip'' ''archive/old/x.zip'' 1 0)
          \<lparr>action := ''MOVE_TO_ARCHIVE_UNKNOWN'', reason := ''Unknown file type; review'',
           dest_rel_path := Some ''archive/_unknown_review/x.zip''\<rparr>"
proof -
  let ?r = "new_record ''archive/old/x.zip'' ''archive/old/x.zip'' 1 0"
  have h: "startswith (lower (rel_path ?r)) ''archive/''" by code_simp
  have c: "classify_not_needed ''archive/old/x.zip'' ''archive/old/x.zip'' = Some ''Packaged artifact (.zip)''"
    "classify_not_needed ''Build_plan/export/x.zip'' ''Build_plan/export/x.zip'' = Some ''Packaged artifact (.zip)''"
    "classify_not_needed ''Build_plan/export/x.html'' ''Build_plan/export/x.html'' = None"
    "classify_not_needed ''my_build_plans/export/x.html'' ''my_build_plans/export/x.html'' = None"
    "classify_not_needed ''drafts/export/x.html'' ''drafts/export/x.html'' = Some ''Looks like export/backup/temp''"
    by code_simp+
  have p: "fst (plan_record False {} ?r)
      = ?r\<lparr>action := ''MOVE_TO_ARCHIVE_UNKNOWN'', reason := ''Unknown file type; review'',
           dest_rel_path := Some ''archive/_unknown_review/x.zip''\<rparr>"
    by code_simp
  have h': "startswith (lower ''archive/old/x.zip'') ''archive/''" by code_simp
  from classify_not_needed_flags [of "''archive/old/x.zip''" "''archive/old/x.zip''" ?r False "{}"] h
  have "action (fst (plan_record False {} ?r)) \<noteq> ''MOVE_TO_ARCHIVE_NOT_NEEDED''" by blast
  with h' c p show ?thesis by simp
qed


section \<open>Canonical entrypoints\<close>

text \<open>
  Claim C6. A file whose name equals a canonical entrypoint name up to the case of its
  letters is to be routed to \<open>Build_plan/\<close> with the reason of the first rule. The
  classifier tests the name and its lower-cased form for membership of
  \<open>CANONICAL_ROOT_FILES\<close>, which holds the lower-cased form of the first name only: the
  lower-cased second name is not matched. Under \<open>Build_plan/m3/\<close> such a file stays where
  it is by the second rule, and elsewhere it is routed by the third rule with the reason of
  that rule; the name in capitals, the first name in small letters and \<open>index.html\<close> are
  routed by the first rule.
\<close>

theorem choose_destination_lowercase_v2:
  "lower ''master_build_plan_consolidated_v2.html'' = lower ''MASTER_BUILD_PLAN_CONSOLIDATED_V2.html''
   \<and> choose_destination ''Build_plan/m3/master_build_plan_consolidated_v2.html''
       ''master_build_plan_consolidated_v2.html''
     = (''Build_plan/m3/master_build_plan_consolidated_v2.html'', ''Already in Build_plan'')
   \<and> choose_destination ''drafts/master_build_plan_consolidated_v2.html''
       ''master_build_plan_consolidated_v2.html''
     = (''Build_plan/master_build_plan_consolidated_v2.html'', ''HTML appears to be build-plan related'')
   \<and> choose_destination ''Build_plan/m3/MASTER_BUILD_PLAN_CONSOLIDATED_V2.html''
       ''MASTER_BUILD_PLAN_CONSOLIDATED_V2.html''
     = (''Build_plan/MASTER_BUILD_PLAN_CONSOLIDATED_V2.html'', ''Canonical plan entrypoint'')
   \<and> choose_destination ''Build_plan/m3/master_build_plan_consolidated.html''
       ''master_build_plan_consolidated.html''
     = (''Build_plan/master_build_plan_consolidated.html'', ''Canonical plan entrypoint'')
   \<and> choose_destination ''drafts/index.html'' ''index.html''
     = (''Build_plan/index.html'', ''Canonical plan entrypoint'')"
  by code_simp


section \<open>Re-planning a relocated file\<close>

text \<open>
  Claim C2, as the specification states it: a file that an applied run moved to its
  classified destination is marked \<open>KEEP_IN_PLACE\<close> when the tree is scanned and planned
  again. It fails for \<open>snapshots/out.txt\<close>: the run moves the file to
  \<open>golden/out.txt\<close>, and the next plan archives it as not needed, because the token
  \<open>old\<close> occurs in \<open>golden\<close>.
\<close>

theorem replan_after_move_counterexample:
  "reorg_main False True ''20260101_000000''
       \<lparr>files = [(''snapshots/out.txt'',
           \<lparr>digest = ''d1'', st_size = 4, st_mtime = 7, stat_fails = False, read_error = None\<rparr>)],
        dirs = [''snapshots'']\<rparr>
     = (\<lparr>files = [(''golden/out.txt'',
           \<lparr>digest = ''d1'', st_size = 4, st_mtime = 7, stat_fails = False, read_error = None\<rparr>)],
         dirs = [''snapshots'', ''Build_plan'', ''docs'', ''spec'', ''src'', ''fixtures'', ''golden'',
           ''tools'', ''reports'', ''archive'', ''archive/_duplicates'', ''archive/_not_needed'',
           ''archive/_unknown_review'', ''reports/reorg'', ''reports/reorg/20260101_000000'']\<rparr>,
        [(new_record ''snapshots/out.txt'' ''snapshots/out.txt'' 4 7)
           \<lparr>action := ''MOVE_TO_DEST'', reason := ''Golden output'',
            dest_rel_path := Some ''golden/out.txt''\<rparr>],
        [(''snapshots/out.txt'', ''golden/out.txt'')], None)
   \<and> fst (snd (reorg_main False False ''20260101_000100''
       \<lparr>files = [(''golden/out.txt'',
           \<lparr>digest = ''d1'', st_size = 4, st_mtime = 7, stat_fails = False, read_error = None\<rparr>)],
         dirs = [''snapshots'', ''Build_plan'', ''docs'', ''spec'', ''src'', ''fixtures'', ''golden'',
           ''tools'', ''reports'', ''archive'', ''archive/_duplicates'', ''archive/_not_needed'',
           ''archive/_unknown_review'', ''reports/reorg'', ''reports/reorg/20260101_000000'']\<rparr>))
     = [(new_record ''golden/out.txt'' ''golden/out.txt'' 4 7)
           \<lparr>action := ''MOVE_TO_ARCHIVE_NOT_NEEDED'', reason := ''Looks like export/backup/temp'',
            dest_rel_path := Some ''archive/_not_needed/out.txt''\<rparr>]"
  by code_simp

text \<open>
  Claim C2, amended. Let the planner send a file, whose path holds no backslash, to the
  destination \<open>d\<close> that the destination classifier chose (action \<open>MOVE_TO_DEST\<close> or
  \<open>MOVE_TO_ARCHIVE_UNKNOWN\<close>). Then the destination classifier maps \<open>d\<close> to itself, and
  a record scanned at \<open>d\<close> is marked \<open>KEEP_IN_PLACE\<close> with destination \<open>d\<close> and no
  move, provided that the duplicate rule does not take it and that the not-needed filter
  gives no reason for \<open>d\<close> or \<open>d\<close> lies under \<open>archive/\<close>.
\<close>

theorem replan_keeps_relocated_file:
  assumes nb: "CHR 0x5C \<notin> set (abs_path r)"
    and rel: "rel_path r = normalize_rel (abs_path r)"
    and moved: "action (fst (plan_record h dups r)) = ''MOVE_TO_DEST''
                \<or> action (fst (plan_record h dups r)) = ''MOVE_TO_ARCHIVE_UNKNOWN''"
    and d: "dest_rel_path (fst (plan_record h dups r)) = Some d"
    and r': "abs_path r' = d" "rel_path r' = normalize_rel d"
    and nodup: "\<not> (h' \<and> d \<in> dups')"
    and nn: "classify_not_needed d d = None \<or> startswith (lower d) ''archive/''"
  shows "d = fst (choose_destination (rel_path r) (path_name (abs_path r)))
         \<and> fst (choose_destination d (path_name d)) = d
         \<and> fst (plan_record h' dups' r')
            = r'\<lparr>action := ''KEEP_IN_PLACE'',
                  reason := snd (choose_destination d (path_name d)),
                  dest_rel_path := Some d\<rparr>
         \<and> snd (plan_record h' dups' r') = []"
proof -
  let ?rel = "abs_path r"
  let ?name = "path_name ?rel"
  have rr: "rel_path r = ?rel" using rel nb by (simp add: normalize_rel_def replace_backslash_id)
  have dd: "d = fst (choose_destination ?rel ?name)"
    using moved d unfolding plan_record_def Let_def rr
    by (auto split: if_splits)
  from choose_destination_fixed[OF nb refl]
  have fx: "fst (choose_destination d ?name) = d" and pn: "path_name d = ?name"
    and nbd: "CHR 0x5C \<notin> set d"
    unfolding dd by blast+
  have nd: "normalize_rel d = d" using nbd by (simp add: normalize_rel_def replace_backslash_id)
  have c: "\<not> (classify_not_needed d d \<noteq> None \<and> the (classify_not_needed d d) \<noteq> []
              \<and> \<not> startswith (lower d) ''archive/'')"
    using nn by auto
  have "plan_record h' dups' r'
      = (r'\<lparr>action := ''KEEP_IN_PLACE'', reason := snd (choose_destination d (path_name d)),
             dest_rel_path := Some d\<rparr>, [])"
    unfolding plan_record_def Let_def r' nd using nodup c fx pn
    by (simp only: if_False if_True simp_thms)
  then show ?thesis using dd fx pn rr by simp
qed

text \<open>The theorem at \<open>notes/ideas.md\<close>, which the planner sends to \<open>docs/ideas.md\<close>.\<close>

theorem replan_keeps_relocated_file_witness:
  "fst (plan_record False {} (new_record ''notes/ideas.md'' ''notes/ideas.md'' 3 5))
     = (new_record ''notes/ideas.md'' ''notes/ideas.md'' 3 5)
         \<lparr>action := ''MOVE_TO_DEST'', reason := ''General markdown documentation'',
          dest_rel_path := Some ''docs/ideas.md''\<rparr>
   \<and> fst (plan_record False {} (new_record ''docs/ideas.md'' ''docs/ideas.md'' 3 5))
     = (new_record ''docs/ideas.md'' ''docs/ideas.md'' 3 5)
         \<lparr>action := ''KEEP_IN_PLACE'',
          reason := snd (choose_destination ''docs/ideas.md'' (path_name ''docs/ideas.md'')),
          dest_rel_path := Some ''docs/ideas.md''\<rparr>
   \<and> snd (plan_record False {} (new_record ''docs/ideas.md'' ''docs/ideas.md'' 3 5)) = []"
proof -
  let ?r = "new_record ''notes/ideas.md'' ''notes/ideas.md'' 3 5"
  let ?r' = "new_record ''docs/ideas.md'' ''docs/ideas.md'' 3 5"
  have p: "fst (plan_record False {} ?r)
     = ?r\<lparr>action := ''MOVE_TO_DEST'', reason := ''General markdown documentation'',
          dest_rel_path := Some ''docs/ideas.md''\<rparr>"
    by code_simp
  have h1: "CHR 0x5C \<notin> set (abs_path ?r)" by code_simp
  have h2: "rel_path ?r = normalize_rel (abs_path ?r)" by code_simp
  have h3: "action (fst (plan_record False {} ?r)) = ''MOVE_TO_DEST''
            \<or> action (fst (plan_record False {} ?r)) = ''MOVE_TO_ARCHIVE_UNKNOWN''"
    unfolding p by simp
  have h4: "dest_rel_path (fst (plan_record False {} ?r)) = Some ''docs/ideas.md''"
    unfolding p by simp
  have h5: "abs_path ?r' = ''docs/ideas.md''" "rel_path ?r' = normalize_rel ''docs/ideas.md''"
    by code_simp+
  have h6: "\<not> (False \<and> ''docs/ideas.md'' \<in> {})" by simp
  have h7: "classify_not_needed ''docs/ideas.md'' ''docs/ideas.md'' = None
            \<or> startswith (lower ''docs/ideas.md'') ''archive/''"
    by code_simp
  note k = replan_keeps_relocated_file[OF h1 h2 h3 h4 h5 h6 h7]
  from k have k1: "fst (plan_record False {} ?r')
     = ?r'\<lparr>action := ''KEEP_IN_PLACE'',
          reason := snd (choose_destination ''docs/ideas.md'' (path_name ''docs/ideas.md'')),
          dest_rel_path := Some ''docs/ideas.md''\<rparr>"
    by (elim conjE)
  from k have k2: "snd (plan_record False {} ?r') = []"
    by (elim conjE)
  from p k1 k2 show ?thesis by (intro conjI)
qed


section \<open>Sorting in descending order\<close>


lemma sort_key_eq_Nil [simp]: "sort_key f zs = [] \<longleftrightarrow> zs = []"
  using length_sort[of f zs] by (metis length_0_conv)

lemma py_sorted_reverse_Nil [simp]: "py_sorted_reverse f [] = []"
  by (simp add: py_sorted_reverse_def)



lemma py_sorted_reverse_eq_Nil [simp]: "py_sorted_reverse f xs = [] \<longleftrightarrow> xs = []"
  by (simp add: py_sorted_reverse_def)



section \<open>The duplicate pass\<close>











section \<open>The best candidate\<close>





section \<open>The loop over the matches and the documents\<close>

lemma make_issue_fields:
  "make_issue repo f a val st sugg = Inr i \<Longrightarrow>
     status i = st \<and> original i = val \<and> attr i = a \<and> suggestion i = sugg"
  by (auto simp: make_issue_def split: sum.splits)

lemma make_issue_pair:
  "make_issue repo f a val ''BROKEN'' sugg = Inr b \<Longrightarrow> make_issue repo f a val ''FIXED'' sugg = Inr x
     \<Longrightarrow> x\<lparr>status := ''BROKEN''\<rparr> = b"
  by (auto simp: make_issue_def split: sum.splits)

lemma process_match_skip:
  assumes "val = [] \<or> is_external val \<or> is_disk_path val \<or> startswith (lower val) ''data:''"
  shows "process_match t idx repo f (a, val, s, e) st = Inr st"
  using assms by (cases st) (auto simp: process_match_def)

text \<open>What one turn of the loop over the matches can do to the state.\<close>

lemma process_match_cases:
  assumes "process_match t idx repo f (a, val, s, e) (broken, fixed, reps) = Inr st'"
  shows "st' = (broken, fixed, reps)
    \<or> (\<not> (val = [] \<or> is_external val \<or> is_disk_path val \<or> startswith (lower val) ''data:'')
        \<and> ((\<exists>b. st' = (broken @ [b], fixed, reps) \<and> status b = ''BROKEN'' \<and> original b = val)
           \<or> (\<exists>b x new_val. st' = (broken @ [b], fixed @ [x], reps @ [(s, e, new_val)])
                 \<and> status b = ''BROKEN'' \<and> original b = val
                 \<and> status x = ''FIXED'' \<and> original x = val
                 \<and> x\<lparr>status := ''BROKEN''\<rparr> = b)))"
proof (cases "val = [] \<or> is_external val \<or> is_disk_path val \<or> startswith (lower val) ''data:''")
  case True
  from process_match_skip[OF True] assms show ?thesis by simp
next
  case False
  then have nv: "val \<noteq> []" "\<not> is_external val" "\<not> is_disk_path val"
    "\<not> startswith (lower val) ''data:''" by auto
  from assms nv obtain raw_path where rp: "strip_fragment_query val = Inr raw_path"
    by (auto simp: process_match_def split: sum.splits)
  show ?thesis
  proof (cases "raw_path = []")
    case True
    with assms nv rp show ?thesis by (auto simp: process_match_def)
  next
    case ne: False
    from assms nv rp ne obtain target where tg: "resolve_target f val = Inr target"
      by (auto simp: process_match_def split: sum.splits)
    show ?thesis
    proof (cases "pexists t target")
      case True
      with assms nv rp ne tg show ?thesis by (auto simp: process_match_def)
    next
      case nex: False
      let ?cands = "index_get idx (lower (name_of (raw_parts raw_path)))"
      show ?thesis
      proof (cases "?cands = []")
        case True
        with assms nv rp ne tg nex obtain b where
          "make_issue repo f a val ''BROKEN'' [] = Inr b" "st' = (broken @ [b], fixed, reps)"
          by (auto simp: process_match_def Let_def split: sum.splits)
        with make_issue_fields[OF this(1)] False show ?thesis by auto
      next
        case cn: False
        with assms nv rp ne tg nex obtain best new_val b x where
          "preserve_suffix val (to_rel (parent f) best) = Inr new_val"
          and b: "make_issue repo f a val ''BROKEN'' new_val = Inr b"
          and x: "make_issue repo f a val ''FIXED'' new_val = Inr x"
          and st: "st' = (broken @ [b], fixed @ [x], reps @ [(s, e, new_val)])"
          by (auto simp: process_match_def Let_def split: sum.splits)
        from make_issue_fields[OF b] make_issue_fields[OF x] make_issue_pair[OF b x] st False
        show ?thesis by auto
      qed
    qed
  qed
qed


lemma process_matches_issues:
  assumes step: "\<And>m br fx rp br' fx' rp'.
      process_match t idx repo f m (br, fx, rp) = Inr (br', fx', rp') \<Longrightarrow> J br fx \<Longrightarrow> J br' fx'"
  shows "J br fx \<Longrightarrow> process_matches t idx repo f ms (br, fx, rp) = ((br', fx', rp'), err)
           \<Longrightarrow> J br' fx'"
proof (induction ms arbitrary: br fx rp)
  case Nil
  then show ?case by simp
next
  case (Cons m ms)
  show ?case
  proof (cases "process_match t idx repo f m (br, fx, rp)")
    case (Inl e)
    with Cons.prems show ?thesis by simp
  next
    case (Inr st1)
    obtain br1 fx1 rp1 where st1: "st1 = (br1, fx1, rp1)" by (cases st1) auto
    from step[OF Inr[unfolded st1] Cons.prems(1)] have "J br1 fx1" .
    moreover from Cons.prems(2) Inr st1
    have "process_matches t idx repo f ms (br1, fx1, rp1) = ((br', fx', rp'), err)" by simp
    ultimately show ?thesis by (rule Cons.IH)
  qed
qed

lemma process_files_issues:
  assumes step: "\<And>t f m br fx rp br' fx' rp'.
      process_match t idx repo f m (br, fx, rp) = Inr (br', fx', rp') \<Longrightarrow> J br fx \<Longrightarrow> J br' fx'"
  shows "J br fx \<Longrightarrow> process_files finditer ap idx repo fs (br, fx, t) = ((br', fx', t'), err)
           \<Longrightarrow> J br' fx'"
proof (induction fs arbitrary: br fx t)
  case Nil
  then show ?case by simp
next
  case (Cons f fs)
  obtain br1 fx1 rp1 e1 where pm:
    "process_matches t idx repo f (finditer (read_text t f)) (br, fx, []) = ((br1, fx1, rp1), e1)"
    by (metis prod_cases3 surj_pair)
  have j1: "J br1 fx1"
    by (rule process_matches_issues[where J = J, OF step Cons.prems(1) pm]) 
  show ?case
  proof (cases e1)
    case (Some e)
    with Cons.prems(2) pm have "br' = br1" "fx' = fx1" by (simp_all add: Let_def)
    with j1 show ?thesis by simp
  next
    case None
    with Cons.prems(2) pm obtain t1 where
      "process_files finditer ap idx repo fs (br1, fx1, t1) = ((br', fx', t'), err)"
      by (simp add: Let_def)
    with j1 show ?thesis by (rule Cons.IH)
  qed
qed

lemma polish_main_issues:
  assumes step: "\<And>t idx f m br fx rp br' fx' rp'.
      process_match t idx repo f m (br, fx, rp) = Inr (br', fx', rp') \<Longrightarrow> J br fx \<Longrightarrow> J br' fx'"
    and init: "J [] []"
    and run: "polish_main finditer ap repo bp stamp t = ((broken, fixed, t'), err)"
  shows "J broken fixed"
proof (cases "pexists t bp")
  case False
  with run init show ?thesis by (simp add: polish_main_def)
next
  case True
  show ?thesis
  proof (cases "pmkdir t (repo @ [''reports'', ''polish'', stamp])")
    case (Inl e)
    with run init True show ?thesis by (simp add: polish_main_def)
  next
    case (Inr t1)
    with run True have pf: "process_files finditer ap (build_filename_index t1 bp) repo
               (html_files t1 bp) ([], [], t1) = ((broken, fixed, t'), err)"
      by (simp add: polish_main_def)
    show ?thesis
    proof (rule process_files_issues[where J = J and br = "[]" and fx = "[]", OF _ init pf])
      fix t f m br fx rp br' fx' rp'
      assume "process_match t (build_filename_index t1 bp) repo f m (br, fx, rp) = Inr (br', fx', rp')"
        and "J br fx"
      then show "J br' fx'" by (rule step)
    qed
  qed
qed


section \<open>Broken and fixed issues\<close>

text \<open>
  Claim C10. For every run of the link remediation engine, whether it ends or is cut
  short by an error, the fixed issues, with their status set to \<open>BROKEN\<close>, form a
  subsequence of the broken issues. So every issue recorded as \<open>FIXED\<close> has an issue
  recorded as \<open>BROKEN\<close> with the same document, attribute, original value, directory
  and suggestion, and the list of broken issues is at least as long as the list of fixed
  issues.
\<close>

theorem fixed_issues_are_broken_issues:
  assumes run: "polish_main finditer apply_flag repo bp stamp t = ((broken, fixed, t'), err)"
  shows "subseq (map (\<lambda>x. x\<lparr>status := ''BROKEN''\<rparr>) fixed) broken
    \<and> (\<forall>x\<in>set fixed. status x = ''FIXED''
          \<and> (\<exists>b\<in>set broken. status b = ''BROKEN'' \<and> doc_file b = doc_file x \<and> attr b = attr x
                \<and> original b = original x \<and> resolved_from b = resolved_from x
                \<and> suggestion b = suggestion x))
    \<and> length fixed \<le> length broken"
proof -
  let ?J = "\<lambda>br fx. subseq (map (\<lambda>x. x\<lparr>status := ''BROKEN''\<rparr>) fx) br
      \<and> (\<forall>x\<in>set fx. status x = ''FIXED'') \<and> (\<forall>b\<in>set br. status b = ''BROKEN'')"
  have step: "?J br' fx'"
    if pm: "process_match t idx repo f m (br, fx, rp) = Inr (br', fx', rp')" and j: "?J br fx"
    for t idx f m br fx rp br' fx' rp'
  proof -
    obtain a val s e where m: "m = (a, val, s, e)" by (cases m) auto
    from process_match_cases[OF pm[unfolded m]]
    consider "(br', fx', rp') = (br, fx, rp)"
      | b where "(br', fx', rp') = (br @ [b], fx, rp)" "status b = ''BROKEN''"
      | b x new_val where "(br', fx', rp') = (br @ [b], fx @ [x], rp @ [(s, e, new_val)])"
          "status b = ''BROKEN''" "status x = ''FIXED''" "x\<lparr>status := ''BROKEN''\<rparr> = b"
      by blast
    then show ?thesis
    proof cases
      case 1
      with j show ?thesis by simp
    next
      case 2
      with j show ?thesis by (auto intro: list_emb_append_mono[where ys = "[]", simplified])
    next
      case 3
      have "subseq (map (\<lambda>x. x\<lparr>status := ''BROKEN''\<rparr>) fx @ [b]) (br @ [b])"
        using j by (intro list_emb_append_mono) simp_all
      with 3 j show ?thesis by auto
    qed
  qed
  have "?J broken fixed"
    by (rule polish_main_issues[where J = ?J, OF step _ run]) simp_all
  then have sub: "subseq (map (\<lambda>x. x\<lparr>status := ''BROKEN''\<rparr>) fixed) broken"
    and fx: "\<forall>x\<in>set fixed. status x = ''FIXED''"
    and br: "\<forall>b\<in>set broken. status b = ''BROKEN''"
    by blast+
  have len: "length fixed \<le> length broken"
    using list_emb_length[OF sub] by simp
  have "\<exists>b\<in>set broken. status b = ''BROKEN'' \<and> doc_file b = doc_file x \<and> attr b = attr x
                \<and> original b = original x \<and> resolved_from b = resolved_from x
                \<and> suggestion b = suggestion x" if "x \<in> set fixed" for x
  proof -
    from that have "x\<lparr>status := ''BROKEN''\<rparr> \<in> set (map (\<lambda>x. x\<lparr>status := ''BROKEN''\<rparr>) fixed)"
      by simp
    from list_emb_set[OF sub this] obtain y where "y \<in> set broken" "x\<lparr>status := ''BROKEN''\<rparr> = y"
      by blast
    then have "x\<lparr>status := ''BROKEN''\<rparr> \<in> set broken" by simp
    then show ?thesis by (intro bexI[of _ "x\<lparr>status := ''BROKEN''\<rparr>"]) simp_all
  qed
  then have ex: "\<forall>x\<in>set fixed. status x = ''FIXED''
          \<and> (\<exists>b\<in>set broken. status b = ''BROKEN'' \<and> doc_file b = doc_file x \<and> attr b = attr x
                \<and> original b = original x \<and> resolved_from b = resolved_from x
                \<and> suggestion b = suggestion x)"
    using fx by simp
  from sub ex len show ?thesis by (intro conjI)
qed

text \<open>
  The theorem on a document with one reference that can be repaired and one that cannot:
  the first is in both lists, the second in the broken list only.
\<close>

theorem fixed_issues_are_broken_issues_witness:
  "(let R = polish_main
        (\<lambda>text. if text = ''<a href=\"overview.html\"> <img src=\"gone.png\">''
                then [(''href'', ''overview.html'', 9, 22), (''src'', ''gone.png'', 35, 43)] else [])
        False [''r''] [''r'', ''Build_plan''] ''20260101_000000''
        \<lparr>pfiles = [([''r'', ''Build_plan'', ''m3'', ''page.html''],
                     ''<a href=\"overview.html\"> <img src=\"gone.png\">''),
                   ([''r'', ''Build_plan'', ''m7'', ''overview.html''], ''x'')],
         pdirs = [[''r''], [''r'', ''Build_plan''], [''r'', ''Build_plan'', ''m3''],
                  [''r'', ''Build_plan'', ''m7'']]\<rparr>
    in fst (fst R) =
         [\<lparr>doc_file = ''Build_plan/m3/page.html'', attr = ''href'', original = ''overview.html'',
           resolved_from = ''Build_plan/m3'', status = ''BROKEN'', suggestion = ''../m7/overview.html''\<rparr>,
          \<lparr>doc_file = ''Build_plan/m3/page.html'', attr = ''src'', original = ''gone.png'',
           resolved_from = ''Build_plan/m3'', status = ''BROKEN'', suggestion = []\<rparr>]
       \<and> fst (snd (fst R)) =
         [\<lparr>doc_file = ''Build_plan/m3/page.html'', attr = ''href'', original = ''overview.html'',
           resolved_from = ''Build_plan/m3'', status = ''FIXED'', suggestion = ''../m7/overview.html''\<rparr>]
       \<and> snd R = None
       \<and> subseq (map (\<lambda>x. x\<lparr>status := ''BROKEN''\<rparr>) (fst (snd (fst R)))) (fst (fst R))
       \<and> length (fst (snd (fst R))) \<le> length (fst (fst R)))"
proof -
  let ?fi = "\<lambda>text. if text = ''<a href=\"overview.html\"> <img src=\"gone.png\">''
                then [(''href'', ''overview.html'', 9, 22), (''src'', ''gone.png'', 35, 43)] else []"
  let ?T = "\<lparr>pfiles = [([''r'', ''Build_plan'', ''m3'', ''page.html''],
                     ''<a href=\"overview.html\"> <img src=\"gone.png\">''),
                   ([''r'', ''Build_plan'', ''m7'', ''overview.html''], ''x'')],
         pdirs = [[''r''], [''r'', ''Build_plan''], [''r'', ''Build_plan'', ''m3''],
                  [''r'', ''Build_plan'', ''m7'']]\<rparr>"
  let ?R = "polish_main ?fi False [''r''] [''r'', ''Build_plan''] ''20260101_000000'' ?T"
  have run: "?R = ((fst (fst ?R), fst (snd (fst ?R)), snd (snd (fst ?R))), snd ?R)" by simp
  have e1: "fst (fst ?R) =
         [\<lparr>doc_file = ''Build_plan/m3/page.html'', attr = ''href'', original = ''overview.html'',
           resolved_from = ''Build_plan/m3'', status = ''BROKEN'', suggestion = ''../m7/overview.html''\<rparr>,
          \<lparr>doc_file = ''Build_plan/m3/page.html'', attr = ''src'', original = ''gone.png'',
           resolved_from = ''Build_plan/m3'', status = ''BROKEN'', suggestion = []\<rparr>]"
    by code_simp
  have e2: "fst (snd (fst ?R)) =
         [\<lparr>doc_file = ''Build_plan/m3/page.html'', attr = ''href'', original = ''overview.html'',
           resolved_from = ''Build_plan/m3'', status = ''FIXED'', suggestion = ''../m7/overview.html''\<rparr>]"
    by code_simp
  have e3: "snd ?R = None" by code_simp
  note k = fixed_issues_are_broken_issues[OF run]
  note k1 = k[THEN conjunct1]
  note k2 = k[THEN conjunct2, THEN conjunct2]
  show ?thesis unfolding Let_def
    by (rule conjI[OF e1 conjI[OF e2 conjI[OF e3 conjI[OF k1 k2]]]])
qed


section \<open>Backups\<close>

lemma keys_rewrite:
  "map fst (map (\<lambda>(q, c). if q = p then (q, x) else (q, c)) fs) = map fst fs"
  by (induction fs) auto

lemma map_of_rewrite:
  "map_of (map (\<lambda>(q, c). if q = p then (q, x) else (q, c)) fs) q
     = (if q = p then (if p \<in> set (map fst fs) then Some x else None) else map_of fs q)"
proof (induction fs)
  case Nil
  then show ?case by simp
next
  case (Cons a fs)
  obtain q' c where a: "a = (q', c)" by (cases a)
  show ?case
  proof (cases "q' = p")
    case True
    then show ?thesis using a Cons by (auto split: if_splits)
  next
    case False
    then show ?thesis using a Cons by (auto split: if_splits)
  qed
qed

lemma keys_write:
  "set (map fst (pfiles (write_text t p x))) = insert p (set (map fst (pfiles t)))"
proof (cases "p \<in> set (map fst (pfiles t))")
  case True
  then have "pfiles (write_text t p x) = map (\<lambda>(q, c). if q = p then (q, x) else (q, c)) (pfiles t)"
    by (simp add: write_text_def)
  then have "map fst (pfiles (write_text t p x)) = map fst (pfiles t)"
    by (simp only: keys_rewrite)
  with True show ?thesis by auto
next
  case False
  then have "pfiles (write_text t p x) = pfiles t @ [(p, x)]" by (simp add: write_text_def)
  then show ?thesis by simp
qed

lemma dirs_write: "pdirs (write_text t p x) = pdirs t"
  by (simp add: write_text_def)

lemma read_write_same: "read_text (write_text t p x) p = x"
proof (cases "p \<in> set (map fst (pfiles t))")
  case True
  then have "pfiles (write_text t p x) = map (\<lambda>(q, c). if q = p then (q, x) else (q, c)) (pfiles t)"
    by (simp add: write_text_def)
  then have "map_of (pfiles (write_text t p x)) p = Some x"
    using True by (simp add: map_of_rewrite)
  then show ?thesis by (simp add: read_text_def)
next
  case False
  then have "pfiles (write_text t p x) = pfiles t @ [(p, x)]" by (simp add: write_text_def)
  moreover have "map_of (pfiles t) p = None" using False by (simp add: map_of_eq_None_iff)
  ultimately have "map_of (pfiles (write_text t p x)) p = Some x" by (simp add: map_add_def)
  then show ?thesis by (simp add: read_text_def)
qed

lemma read_write_other: "q \<noteq> p \<Longrightarrow> read_text (write_text t p x) q = read_text t q"
proof (cases "p \<in> set (map fst (pfiles t))")
  case True
  assume n: "q \<noteq> p"
  from True have "pfiles (write_text t p x) = map (\<lambda>(q, c). if q = p then (q, x) else (q, c)) (pfiles t)"
    by (simp add: write_text_def)
  then have "map_of (pfiles (write_text t p x)) q = map_of (pfiles t) q"
    using n by (simp add: map_of_rewrite)
  then show ?thesis by (simp add: read_text_def)
next
  case False
  assume n: "q \<noteq> p"
  from False have "pfiles (write_text t p x) = pfiles t @ [(p, x)]" by (simp add: write_text_def)
  then have "map_of (pfiles (write_text t p x)) q = map_of (pfiles t) q"
    using n by (simp add: map_add_def split: option.splits)
  then show ?thesis by (simp add: read_text_def)
qed

lemma is_file_write: "is_file (write_text t p x) q \<longleftrightarrow> is_file t q \<or> q = p"
  unfolding is_file_def keys_write by auto

lemma pexists_write: "pexists (write_text t p x) q \<longleftrightarrow> pexists t q \<or> q = p"
  unfolding pexists_def keys_write dirs_write by auto

lemma bak_path_neq: "bak_path f \<noteq> f"
proof (cases "f = []")
  case True
  then show ?thesis by (simp add: bak_path_def)
next
  case False
  then have "last (bak_path f) = last f @ ''.bak_polish''" by (simp add: bak_path_def name_of_def)
  then show ?thesis by (metis append_self_conv list.distinct(1))
qed

lemma write_fixes_backup_kept:
  "pexists t (bak_path f) \<Longrightarrow>
     read_text (write_fixes t f text reps) (bak_path f) = read_text t (bak_path f)"
  by (simp add: write_fixes_def Let_def read_write_other bak_path_neq)

lemma write_fixes_backup_made:
  "\<not> pexists t (bak_path f) \<Longrightarrow> read_text (write_fixes t f text reps) (bak_path f) = text"
  by (simp add: write_fixes_def Let_def read_write_other bak_path_neq read_write_same)

lemma suffix_last: "suffix s n \<Longrightarrow> s \<noteq> [] \<Longrightarrow> last n = last s"
  by (auto simp: suffix_def)

lemma html_is_no_backup:
  "suffix ''.html'' (name_of f) \<Longrightarrow> suffix ''.bak_polish'' (name_of b) \<Longrightarrow> f \<noteq> b"
proof
  assume h: "suffix ''.html'' (name_of f)" and k: "suffix ''.bak_polish'' (name_of b)" and e: "f = b"
  from suffix_last[OF h] have "last (name_of f) = CHR ''l''" by simp
  moreover from suffix_last[OF k] have "last (name_of b) = CHR ''h''" by simp
  ultimately show False using e by simp
qed

lemma write_fixes_other_backup:
  assumes h: "suffix ''.html'' (name_of f)" and k: "suffix ''.bak_polish'' (name_of b)"
    and ex: "is_file t b"
  shows "is_file (write_fixes t f text reps) b
         \<and> read_text (write_fixes t f text reps) b = read_text t b"
proof -
  have fb: "b \<noteq> f" using html_is_no_backup[OF h k] by simp
  have pe: "pexists t b" using ex by (simp add: pexists_def is_file_def)
  show ?thesis
  proof (cases "bak_path f = b")
    case True
    with pe ex fb show ?thesis
      by (simp add: write_fixes_def Let_def read_write_other is_file_write)
  next
    case False
    then have "b \<noteq> bak_path f" by simp
    with ex fb show ?thesis
      by (simp add: write_fixes_def Let_def read_write_other is_file_write)
  qed
qed

lemma process_files_backup:
  assumes k: "suffix ''.bak_polish'' (name_of b)"
  shows "\<forall>f\<in>set fs. suffix ''.html'' (name_of f) \<Longrightarrow> is_file t b
    \<Longrightarrow> process_files finditer ap idx repo fs (br, fx, t) = ((br', fx', t'), err)
    \<Longrightarrow> is_file t' b \<and> read_text t' b = read_text t b"
proof (induction fs arbitrary: br fx t)
  case Nil
  then show ?case by simp
next
  case (Cons f fs)
  obtain br1 fx1 rp1 e1 where pm:
    "process_matches t idx repo f (finditer (read_text t f)) (br, fx, []) = ((br1, fx1, rp1), e1)"
    by (metis prod_cases3 surj_pair)
  show ?case
  proof (cases e1)
    case (Some e)
    with Cons.prems(3) pm have "t' = t" by (simp add: Let_def)
    with Cons.prems(2) show ?thesis by simp
  next
    case None
    let ?t1 = "if rp1 \<noteq> [] \<and> ap then write_fixes t f (read_text t f) rp1 else t"
    from None Cons.prems(3) pm
    have pf: "process_files finditer ap idx repo fs (br1, fx1, ?t1) = ((br', fx', t'), err)"
      by (simp add: Let_def)
    have h: "suffix ''.html'' (name_of f)" using Cons.prems(1) by simp
    have t1: "is_file ?t1 b \<and> read_text ?t1 b = read_text t b"
      using write_fixes_other_backup[OF h k Cons.prems(2)] Cons.prems(2) by simp
    have "\<forall>f\<in>set fs. suffix ''.html'' (name_of f)" using Cons.prems(1) by simp
    from Cons.IH[OF this t1[THEN conjunct1] pf] t1 show ?thesis by simp
  qed
qed

lemma pmkdir_files: "pmkdir t p = Inr t1 \<Longrightarrow> pfiles t1 = pfiles t"
  by (auto simp: pmkdir_def split: if_splits)

text \<open>
  Claim C8. A run of the remediation engine leaves every backup file that exists before
  it with the text it had: the documents it rewrites are \<open>.html\<close> files, and the backup
  of a document is written only when no file or directory has its name. When a document
  is rewritten and its backup exists, the backup keeps its text; when there is none, the
  backup is written with the text the document had before the edit. A second run
  therefore finds the backup of the first and leaves it.
\<close>

theorem existing_backup_is_kept:
  "(is_file t b \<and> suffix ''.bak_polish'' (name_of b)
      \<and> polish_main finditer apply_flag repo bp stamp t = ((broken, fixed, t'), err)
      \<longrightarrow> is_file t' b \<and> read_text t' b = read_text t b)
   \<and> (pexists t (bak_path f) \<longrightarrow>
        read_text (write_fixes t f text reps) (bak_path f) = read_text t (bak_path f))
   \<and> (\<not> pexists t (bak_path f) \<longrightarrow>
        read_text (write_fixes t f text reps) (bak_path f) = text)"
proof (intro conjI impI)
  assume a: "is_file t b \<and> suffix ''.bak_polish'' (name_of b)
      \<and> polish_main finditer apply_flag repo bp stamp t = ((broken, fixed, t'), err)"
  then have ex: "is_file t b" and k: "suffix ''.bak_polish'' (name_of b)"
    and run: "polish_main finditer apply_flag repo bp stamp t = ((broken, fixed, t'), err)"
    by blast+
  have "is_file t' b \<and> read_text t' b = read_text t b"
  proof (cases "pexists t bp")
    case False
    with run ex show ?thesis by (simp add: polish_main_def)
  next
    case True
    show ?thesis
    proof (cases "pmkdir t (repo @ [''reports'', ''polish'', stamp])")
      case (Inl e)
      with run ex True show ?thesis by (simp add: polish_main_def)
    next
      case (Inr t1)
      with run True have pf: "process_files finditer apply_flag (build_filename_index t1 bp) repo
               (html_files t1 bp) ([], [], t1) = ((broken, fixed, t'), err)"
        by (simp add: polish_main_def)
      have same: "pfiles t1 = pfiles t" using pmkdir_files[OF Inr] .
      have ex1: "is_file t1 b" using ex same by (simp add: is_file_def)
      have hs: "\<forall>f\<in>set (html_files t1 bp). suffix ''.html'' (name_of f)"
        by (simp add: html_files_def)
      from process_files_backup[OF k hs ex1 pf] same show ?thesis
        by (simp add: read_text_def)
    qed
  qed
  then show "is_file t' b" and "read_text t' b = read_text t b" by simp_all
next
  assume "pexists t (bak_path f)"
  then show "read_text (write_fixes t f text reps) (bak_path f) = read_text t (bak_path f)"
    by (rule write_fixes_backup_kept)
next
  assume "\<not> pexists t (bak_path f)"
  then show "read_text (write_fixes t f text reps) (bak_path f) = text"
    by (rule write_fixes_backup_made)
qed

text \<open>
  The theorem on a document whose backup exists: the run rewrites the document and the
  backup still has its text.
\<close>

theorem existing_backup_is_kept_witness:
  "(let T = \<lparr>pfiles = [([''r'', ''Build_plan'', ''m3'', ''page.html''], ''<a href=\"overview.html\">''),
                         ([''r'', ''Build_plan'', ''m3'', ''page.html.bak_polish''], ''the first original''),
                         ([''r'', ''Build_plan'', ''m7'', ''overview.html''], ''x'')],
               pdirs = [[''r''], [''r'', ''Build_plan''], [''r'', ''Build_plan'', ''m3''],
                        [''r'', ''Build_plan'', ''m7'']]\<rparr>;
        R = polish_main
              (\<lambda>text. if text = ''<a href=\"overview.html\">'' then [(''href'', ''overview.html'', 9, 22)] else [])
              True [''r''] [''r'', ''Build_plan''] ''20260101_000000'' T
    in bak_path [''r'', ''Build_plan'', ''m3'', ''page.html''] = [''r'', ''Build_plan'', ''m3'', ''page.html.bak_polish'']
       \<and> read_text (snd (snd (fst R))) [''r'', ''Build_plan'', ''m3'', ''page.html'']
            = ''<a href=\"../m7/overview.html\">''
       \<and> read_text (snd (snd (fst R))) [''r'', ''Build_plan'', ''m3'', ''page.html.bak_polish'']
            = ''the first original'')"
proof -
  let ?T = "\<lparr>pfiles = [([''r'', ''Build_plan'', ''m3'', ''page.html''], ''<a href=\"overview.html\">''),
                         ([''r'', ''Build_plan'', ''m3'', ''page.html.bak_polish''], ''the first original''),
                         ([''r'', ''Build_plan'', ''m7'', ''overview.html''], ''x'')],
               pdirs = [[''r''], [''r'', ''Build_plan''], [''r'', ''Build_plan'', ''m3''],
                        [''r'', ''Build_plan'', ''m7'']]\<rparr>"
  let ?fi = "\<lambda>text. if text = ''<a href=\"overview.html\">'' then [(''href'', ''overview.html'', 9, 22)] else []"
  let ?R = "polish_main ?fi True [''r''] [''r'', ''Build_plan''] ''20260101_000000'' ?T"
  let ?b = "[''r'', ''Build_plan'', ''m3'', ''page.html.bak_polish'']"
  have run: "?R = ((fst (fst ?R), fst (snd (fst ?R)), snd (snd (fst ?R))), snd ?R)" by simp
  have h1: "is_file ?T ?b" by code_simp
  have h2: "suffix ''.bak_polish'' (name_of ?b)" by code_simp
  have e0: "bak_path [''r'', ''Build_plan'', ''m3'', ''page.html''] = ?b" by code_simp
  have e1: "read_text (snd (snd (fst ?R))) [''r'', ''Build_plan'', ''m3'', ''page.html'']
            = ''<a href=\"../m7/overview.html\">''" by code_simp
  have e2: "read_text ?T ?b = ''the first original''" by code_simp
  note k = existing_backup_is_kept[THEN conjunct1, rule_format, OF conjI[OF h1 conjI[OF h2 run]]]
  from k[THEN conjunct2] e2
  have k2: "read_text (snd (snd (fst ?R))) ?b = ''the first original''" by simp
  show ?thesis unfolding Let_def
    by (rule conjI[OF e0 conjI[OF e1 k2]])
qed


section \<open>Skipped values\<close>





section \<open>Failures during the scan\<close>

lemma scan_loop_stat_failure:
  "\<exists>(p, f)\<in>set fs. \<not> is_in_skip_dir (normalize_rel p) \<and> stat_fails f
     \<Longrightarrow> \<exists>p. scan_loop hash_flag fs recs hm = Inl (OSError p)"
proof (induction fs arbitrary: recs hm)
  case Nil
  then show ?case by simp
next
  case (Cons a fs)
  obtain p f where a: "a = (p, f)" by (cases a)
  show ?case
  proof (cases "\<not> is_in_skip_dir (normalize_rel p) \<and> stat_fails f")
    case True
    then show ?thesis using a by simp
  next
    case False
    with Cons.prems a have "\<exists>(p, f)\<in>set fs. \<not> is_in_skip_dir (normalize_rel p) \<and> stat_fails f"
      by auto
    from Cons.IH[OF this] show ?thesis using a False
      by (auto simp: Let_def split: option.splits)
  qed
qed

lemma scan_loop_records:
  "\<forall>(p, f)\<in>set fs. \<not> is_in_skip_dir (normalize_rel p) \<longrightarrow> \<not> stat_fails f
     \<Longrightarrow> \<exists>hm'. scan_loop hash_flag fs recs hm =
           Inr (recs @ map (\<lambda>(p, f).
                   if hash_flag then
                     (case read_error f of
                        None \<Rightarrow> (new_record (normalize_rel p) p (st_size f) (st_mtime f))
                                   \<lparr>sha256 := Some (digest f)\<rparr>
                      | Some e \<Rightarrow> (new_record (normalize_rel p) p (st_size f) (st_mtime f))
                                   \<lparr>reason := ''Hash failed: '' @ e\<rparr>)
                   else new_record (normalize_rel p) p (st_size f) (st_mtime f))
                 (filter (\<lambda>(p, f). \<not> is_in_skip_dir (normalize_rel p)) fs), hm')"
proof (induction fs arbitrary: recs hm)
  case Nil
  then show ?case by simp
next
  case (Cons a fs)
  obtain p f where a: "a = (p, f)" by (cases a)
  have rest: "\<forall>(p, f)\<in>set fs. \<not> is_in_skip_dir (normalize_rel p) \<longrightarrow> \<not> stat_fails f"
    using Cons.prems by simp
  show ?case
  proof (cases "is_in_skip_dir (normalize_rel p)")
    case True
    with Cons.IH[OF rest, of recs hm] a show ?thesis by simp
  next
    case ns: False
    with Cons.prems a have nf: "\<not> stat_fails f" by simp
    show ?thesis
    proof (cases hash_flag)
      case False
      with Cons.IH[OF rest, of "recs @ [new_record (normalize_rel p) p (st_size f) (st_mtime f)]" hm]
        a ns nf show ?thesis by (simp add: Let_def)
    next
      case True
      show ?thesis
      proof (cases "read_error f")
        case None
        with Cons.IH[OF rest, of "recs @ [(new_record (normalize_rel p) p (st_size f) (st_mtime f))
                                   \<lparr>sha256 := Some (digest f)\<rparr>]" "setdefault_append (digest f) p hm"]
          a ns nf True show ?thesis by (simp add: Let_def)
      next
        case (Some e)
        with Cons.IH[OF rest, of "recs @ [(new_record (normalize_rel p) p (st_size f) (st_mtime f))
                                   \<lparr>reason := ''Hash failed: '' @ e\<rparr>]" hm]
          a ns nf True show ?thesis by (simp add: Let_def)
      qed
    qed
  qed
qed

text \<open>
  Claim C1, as the specification states it: a failure to read the metadata or the content
  of a file is noted on its record, the run goes on, and the note is on the final record.
  A file whose \<open>stat\<close> raises ends the run with no record at all, and the note of a
  failed hash is replaced by the reason the planner sets.
\<close>

theorem scan_failure_counterexample:
  "reorg_main False False ''20260101_000000''
      \<lparr>files = [(''notes/dangling'',
                  \<lparr>digest = [], st_size = 0, st_mtime = 0, stat_fails = True, read_error = None\<rparr>),
                (''notes/open.md'',
                  \<lparr>digest = ''d2'', st_size = 4, st_mtime = 6, stat_fails = False, read_error = None\<rparr>)],
       dirs = [''notes'']\<rparr>
    = (\<lparr>files = [(''notes/dangling'',
                  \<lparr>digest = [], st_size = 0, st_mtime = 0, stat_fails = True, read_error = None\<rparr>),
                (''notes/open.md'',
                  \<lparr>digest = ''d2'', st_size = 4, st_mtime = 6, stat_fails = False, read_error = None\<rparr>)],
        dirs = [''notes'']\<rparr>, [], [], Some (OSError ''notes/dangling''))
   \<and> fst (snd (reorg_main True False ''20260101_000000''
      \<lparr>files = [(''notes/locked.md'',
                  \<lparr>digest = ''d1'', st_size = 3, st_mtime = 5, stat_fails = False,
                   read_error = Some ''[Errno 13] Permission denied''\<rparr>)],
       dirs = [''notes'']\<rparr>))
    = [(new_record ''notes/locked.md'' ''notes/locked.md'' 3 5)
         \<lparr>action := ''MOVE_TO_DEST'', reason := ''General markdown documentation'',
          dest_rel_path := Some ''docs/locked.md''\<rparr>]"
  by code_simp

text \<open>
  Claim C1, amended. When \<open>stat\<close> succeeds for every scanned file, the scan returns one
  record for every file outside the skipped directories, in scan order; with hashing on,
  the record of a file whose content cannot be read carries the reason
  \<open>Hash failed:\<close> followed by the text of the exception, no digest and the default action
  \<open>KEEP_IN_PLACE\<close>, and the scan goes on to the files after it. When \<open>stat\<close> raises
  for a scanned file, the scan ends with that error.
\<close>

theorem scan_notes_hash_failures:
  "((\<forall>(p, f)\<in>set (files t). \<not> is_in_skip_dir (normalize_rel p) \<longrightarrow> \<not> stat_fails f) \<longrightarrow>
      (\<exists>hash_map. scan hash_flag t =
           Inr (map (\<lambda>(p, f).
                   if hash_flag then
                     (case read_error f of
                        None \<Rightarrow> (new_record (normalize_rel p) p (st_size f) (st_mtime f))
                                   \<lparr>sha256 := Some (digest f)\<rparr>
                      | Some e \<Rightarrow> (new_record (normalize_rel p) p (st_size f) (st_mtime f))
                                   \<lparr>reason := ''Hash failed: '' @ e\<rparr>)
                   else new_record (normalize_rel p) p (st_size f) (st_mtime f))
                 (filter (\<lambda>(p, f). \<not> is_in_skip_dir (normalize_rel p)) (files t)), hash_map)))
   \<and> ((\<exists>(p, f)\<in>set (files t). \<not> is_in_skip_dir (normalize_rel p) \<and> stat_fails f) \<longrightarrow>
        (\<exists>p. scan hash_flag t = Inl (OSError p)))
   \<and> action ((new_record rel p sz mt)\<lparr>reason := ''Hash failed: '' @ e\<rparr>) = ''KEEP_IN_PLACE''
   \<and> reason ((new_record rel p sz mt)\<lparr>reason := ''Hash failed: '' @ e\<rparr>) = ''Hash failed: '' @ e"
proof (intro conjI impI)
  assume "\<forall>(p, f)\<in>set (files t). \<not> is_in_skip_dir (normalize_rel p) \<longrightarrow> \<not> stat_fails f"
  from scan_loop_records[OF this, of hash_flag "[]" "[]"]
  show "\<exists>hash_map. scan hash_flag t =
           Inr (map (\<lambda>(p, f).
                   if hash_flag then
                     (case read_error f of
                        None \<Rightarrow> (new_record (normalize_rel p) p (st_size f) (st_mtime f))
                                   \<lparr>sha256 := Some (digest f)\<rparr>
                      | Some e \<Rightarrow> (new_record (normalize_rel p) p (st_size f) (st_mtime f))
                                   \<lparr>reason := ''Hash failed: '' @ e\<rparr>)
                   else new_record (normalize_rel p) p (st_size f) (st_mtime f))
                 (filter (\<lambda>(p, f). \<not> is_in_skip_dir (normalize_rel p)) (files t)), hash_map)"
    by (simp add: scan_def)
next
  assume "\<exists>(p, f)\<in>set (files t). \<not> is_in_skip_dir (normalize_rel p) \<and> stat_fails f"
  from scan_loop_stat_failure[OF this, of hash_flag "[]" "[]"]
  show "\<exists>p. scan hash_flag t = Inl (OSError p)" by (simp add: scan_def)
next
  show "action ((new_record rel p sz mt)\<lparr>reason := ''Hash failed: '' @ e\<rparr>) = ''KEEP_IN_PLACE''"
    by (simp add: new_record_def)
next
  show "reason ((new_record rel p sz mt)\<lparr>reason := ''Hash failed: '' @ e\<rparr>) = ''Hash failed: '' @ e"
    by (simp add: new_record_def)
qed

text \<open>The theorem on a tree with a file that cannot be read, followed by one that can.\<close>

theorem scan_notes_hash_failures_witness:
  "scan True
      \<lparr>files = [(''notes/locked.md'',
                  \<lparr>digest = ''d1'', st_size = 3, st_mtime = 5, stat_fails = False,
                   read_error = Some ''[Errno 13] Permission denied''\<rparr>),
                (''notes/open.md'',
                  \<lparr>digest = ''d2'', st_size = 4, st_mtime = 6, stat_fails = False, read_error = None\<rparr>)],
       dirs = [''notes'']\<rparr>
    = Inr ([(new_record ''notes/locked.md'' ''notes/locked.md'' 3 5)
              \<lparr>reason := ''Hash failed: [Errno 13] Permission denied''\<rparr>,
            (new_record ''notes/open.md'' ''notes/open.md'' 4 6)\<lparr>sha256 := Some ''d2''\<rparr>],
           [(''d2'', [''notes/open.md''])])"
proof -
  let ?T = "\<lparr>files = [(''notes/locked.md'',
                  \<lparr>digest = ''d1'', st_size = 3, st_mtime = 5, stat_fails = False,
                   read_error = Some ''[Errno 13] Permission denied''\<rparr>),
                (''notes/open.md'',
                  \<lparr>digest = ''d2'', st_size = 4, st_mtime = 6, stat_fails = False, read_error = None\<rparr>)],
       dirs = [''notes'']\<rparr>"
  have h: "\<forall>(p, f)\<in>set (files ?T). \<not> is_in_skip_dir (normalize_rel p) \<longrightarrow> \<not> stat_fails f"
    by simp
  from scan_notes_hash_failures[THEN conjunct1, THEN mp, OF h, of True]
  obtain hash_map where s: "scan True ?T = Inr (map (\<lambda>(p, f).
                   if True then
                     (case read_error f of
                        None \<Rightarrow> (new_record (normalize_rel p) p (st_size f) (st_mtime f))
                                   \<lparr>sha256 := Some (digest f)\<rparr>
                      | Some e \<Rightarrow> (new_record (normalize_rel p) p (st_size f) (st_mtime f))
                                   \<lparr>reason := ''Hash failed: '' @ e\<rparr>)
                   else new_record (normalize_rel p) p (st_size f) (st_mtime f))
                 (filter (\<lambda>(p, f). \<not> is_in_skip_dir (normalize_rel p)) (files ?T)), hash_map)"
    by blast
  have e: "scan True ?T = Inr ([(new_record ''notes/locked.md'' ''notes/locked.md'' 3 5)
              \<lparr>reason := ''Hash failed: [Errno 13] Permission denied''\<rparr>,
            (new_record ''notes/open.md'' ''notes/open.md'' 4 6)\<lparr>sha256 := Some ''d2''\<rparr>],
           [(''d2'', [''notes/open.md''])])"
    by code_simp
  from s e show ?thesis by simp
qed

end
